theory Spec2Isabelle
  imports Main "HOL-Library.Word" "HOL-Library.Multiset"
begin

section \<open>Wallet transaction ingestion and the unspent-output registry\<close>

text \<open>
  A shallow embedding of the \<open>tx\<close> package of the wallet: the coin registry
  (\<open>add\<close>, \<open>remove\<close>), the script template matcher (\<open>parse\<close>,
  \<open>parseScriptsigH\<close>, \<open>parseScriptsigT\<close>, \<open>checkTxin\<close>, \<open>checkTxout\<close>,
  \<open>checkTxout2\<close>) and the transaction processor \<open>Add\<close>.

  The package-level variables \<open>coins\<close> and the standard logger are the state; every
  function takes the state and returns the new one. A Go \<open>error\<close> is its message, a
  run-time panic is a value of \<open>panic\<close>. The mutex only serialises the calls and is
  not part of a sequential model.
\<close>

subsection \<open>Data\<close>

type_synonym byte = "8 word"
type_synonym bytes = "byte list"

text \<open>\<open>type Coin struct\<close>; \<open>Ttype\<close> is a Go \<open>int\<close>.\<close>

record Coin =
  Addr :: bytes
  TxHash :: bytes
  TxIndex :: "32 word"
  Value :: "64 word"
  Ttype :: int

text \<open>
  The decoded transaction of package \<open>msg\<close>, as far as this package reads it: an input
  has \<open>Hash\<close>, \<open>Index\<close> and \<open>Script\<close>, an output has \<open>Value\<close> and \<open>Script\<close>.
\<close>

record txin =
  in_Hash :: bytes
  in_Index :: "32 word"
  in_Script :: bytes

record txout =
  out_Value :: "64 word"
  out_Script :: bytes

record Tx =
  TxIn :: "txin list"
  TxOut :: "txout list"

text \<open>
  The collaborators the package calls and whose code is elsewhere are parameters:
  the key package (\<open>key.NewPublicKey\<close>, \<open>key.HasPubkey\<close>, \<open>key.HasPubHash\<close>,
  the methods \<open>Serialize\<close> and \<open>Address\<close> of a public key), the hash of a
  transaction (\<open>mtx.Hash()\<close>), \<open>behex.EncodeToString\<close>, and the message of the
  error that \<open>msg.Unpack\<close> returns. \<open>key.HasPubHash\<close> returns a key and a flag; the
  pair is an option here.
\<close>

record 'pk collab =
  NewPublicKey :: "bytes \<Rightarrow> string + 'pk"
  HasPubkey :: "'pk \<Rightarrow> bool"
  HasPubHash :: "bytes \<Rightarrow> 'pk option"
  Serialize :: "'pk \<Rightarrow> bytes"
  Address :: "'pk \<Rightarrow> string"
  TxHashOf :: "Tx \<Rightarrow> bytes"
  EncodeToString :: "bytes \<Rightarrow> string"
  UnpackErr :: string

text \<open>
  \<open>var coins = make(map[string]Coins)\<close> and the lines written with \<open>log.Println\<close>
  (one entry per call, without time stamp and newline).
\<close>

record state =
  coins :: "bytes \<rightharpoonup> Coin list"
  logs :: "string list"

datatype panic = IndexOutOfRange

text \<open>Reading a missing key of a Go map gives the nil slice, of length 0.\<close>

definition coins_of :: "state \<Rightarrow> bytes \<Rightarrow> Coin list" where
  "coins_of st a = (case coins st a of None \<Rightarrow> [] | Some cs \<Rightarrow> cs)"

definition logln :: "string \<Rightarrow> state \<Rightarrow> state" where
  "logln m st = st\<lparr>logs := logs st @ [m]\<rparr>"

subsection \<open>The registry\<close>

text \<open>
  \<open>func add\<close>: the coin is built from the transaction and appended to the list of the
  address. \<open>tx.TxOut[index]\<close> panics when the index is out of range.
\<close>

definition add :: "'pk collab \<Rightarrow> 'pk \<Rightarrow> Tx \<Rightarrow> 32 word \<Rightarrow> int \<Rightarrow> state \<Rightarrow> panic + state" where
  "add env pub tx index ttype st =
     (let a = Serialize env pub in
      if unat index < length (TxOut tx) then
        let c = \<lparr>Addr = a, TxHash = TxHashOf env tx, TxIndex = index,
                 Value = out_Value (TxOut tx ! unat index), Ttype = ttype\<rparr>
        in Inr (st\<lparr>coins := (coins st)(a \<mapsto> coins_of st a @ [c])\<rparr>)
      else Inl IndexOutOfRange)"

text \<open>The test of the loop of \<open>remove\<close>.\<close>

definition is_coin :: "bytes \<Rightarrow> 32 word \<Rightarrow> Coin \<Rightarrow> bool" where
  "is_coin hash index c = (TxHash c = hash \<and> TxIndex c = index)"

text \<open>The loop \<open>for i, c := range coin\<close>: the position at which it leaves, if it does.\<close>

fun scan :: "bytes \<Rightarrow> 32 word \<Rightarrow> Coin list \<Rightarrow> nat option" where
  "scan hash index [] = None"
| "scan hash index (c # cs) =
     (if is_coin hash index c then Some 0 else map_option Suc (scan hash index cs))"

text \<open>
  \<open>func remove\<close>: the entry found is overwritten with the last one and the list is cut
  by one. The result is the error (\<open>None\<close> for nil) and the state.
\<close>

definition remove :: "'pk collab \<Rightarrow> 'pk \<Rightarrow> bytes \<Rightarrow> 32 word \<Rightarrow> state \<Rightarrow> string option \<times> state" where
  "remove env pub hash index st =
     (let a = Serialize env pub; coin = coins_of st a in
      case scan hash index coin of
        Some i \<Rightarrow> (None, st\<lparr>coins := (coins st)(a \<mapsto> butlast (coin[i := last coin]))\<rparr>)
      | None \<Rightarrow> (Some ''coin was not found'', st))"

subsection \<open>Script templates\<close>

record ScriptSigH =
  SigLength :: byte
  Prefix30 :: byte
  RSLength :: byte
  PrefixR02 :: byte
  RLength :: byte
  R :: bytes
  PrefixL02 :: byte
  SLength :: byte
  S :: bytes

record ScriptSigT =
  Postfix01 :: byte
  Length :: byte
  Pubkey :: bytes

record Script =
  Dup :: byte
  Hash160 :: byte
  HashLength :: byte
  PubHash :: bytes
  EqualVerify :: byte
  CheckSig :: byte

record Script2 =
  Length2 :: byte
  Pubkey2 :: bytes
  CheckSig2 :: byte

text \<open>
  Modelled from the spec: the opcode constants \<open>opDUP\<close>, \<open>opHASH160\<close>,
  \<open>opEQUALVERIFY\<close> and \<open>opCHECKSIG\<close> are declared in a file that is not among the
  sources; the spec gives the pay-to-public-key-hash script as
  \<open>[0x76, 0xA9, 0x14, hash, 0x88, 0xAC]\<close> = \<open>[DUP, HASH160, length, hash, EQUALVERIFY, CHECKSIG]\<close>.
\<close>

definition opDUP :: byte where "opDUP = 0x76"
definition opHASH160 :: byte where "opHASH160 = 0xA9"
definition opEQUALVERIFY :: byte where "opEQUALVERIFY = 0x88"
definition opCHECKSIG :: byte where "opCHECKSIG = 0xAC"

text \<open>
  Modelled from the spec: \<open>msg.Unpack\<close>, the positional decoder of package \<open>msg\<close>, is
  not among the sources. By the spec it reads the fields of the structure in order, a
  byte field as one byte, a field tagged \<open>len:"20"\<close> as that many bytes, a field tagged
  \<open>len:"var"\<close> as as many bytes as the preceding byte says, and fails when the buffer is
  shorter than required. The bytes not read stay in the buffer.
\<close>

fun read_byte :: "bytes \<Rightarrow> (byte \<times> bytes) option" where
  "read_byte [] = None"
| "read_byte (b # bs) = Some (b, bs)"

definition read_bytes :: "nat \<Rightarrow> bytes \<Rightarrow> (bytes \<times> bytes) option" where
  "read_bytes n bs = (if length bs < n then None else Some (take n bs, drop n bs))"

definition Unpack_ScriptSigH :: "bytes \<Rightarrow> (ScriptSigH \<times> bytes) option" where
  "Unpack_ScriptSigH data =
     Option.bind (read_byte data) (\<lambda>(sl, b1).
     Option.bind (read_byte b1) (\<lambda>(p30, b2).
     Option.bind (read_byte b2) (\<lambda>(rsl, b3).
     Option.bind (read_byte b3) (\<lambda>(pr, b4).
     Option.bind (read_byte b4) (\<lambda>(rl, b5).
     Option.bind (read_bytes (unat rl) b5) (\<lambda>(r, b6).
     Option.bind (read_byte b6) (\<lambda>(pl, b7).
     Option.bind (read_byte b7) (\<lambda>(sl', b8).
     Option.bind (read_bytes (unat sl') b8) (\<lambda>(s, b9).
       Some (\<lparr>SigLength = sl, Prefix30 = p30, RSLength = rsl, PrefixR02 = pr,
              RLength = rl, R = r, PrefixL02 = pl, SLength = sl', S = s\<rparr>, b9))))))))))"

definition Unpack_ScriptSigT :: "bytes \<Rightarrow> (ScriptSigT \<times> bytes) option" where
  "Unpack_ScriptSigT data =
     Option.bind (read_byte data) (\<lambda>(p, b1).
     Option.bind (read_byte b1) (\<lambda>(l, b2).
     Option.bind (read_bytes (unat l) b2) (\<lambda>(k, b3).
       Some (\<lparr>Postfix01 = p, Length = l, Pubkey = k\<rparr>, b3))))"

definition Unpack_Script :: "bytes \<Rightarrow> (Script \<times> bytes) option" where
  "Unpack_Script data =
     Option.bind (read_byte data) (\<lambda>(d, b1).
     Option.bind (read_byte b1) (\<lambda>(h, b2).
     Option.bind (read_byte b2) (\<lambda>(l, b3).
     Option.bind (read_bytes 20 b3) (\<lambda>(ph, b4).
     Option.bind (read_byte b4) (\<lambda>(e, b5).
     Option.bind (read_byte b5) (\<lambda>(c, b6).
       Some (\<lparr>Dup = d, Hash160 = h, HashLength = l, PubHash = ph,
              EqualVerify = e, CheckSig = c\<rparr>, b6)))))))"

definition Unpack_Script2 :: "bytes \<Rightarrow> (Script2 \<times> bytes) option" where
  "Unpack_Script2 data =
     Option.bind (read_byte data) (\<lambda>(l, b1).
     Option.bind (read_bytes (unat l) b1) (\<lambda>(k, b2).
     Option.bind (read_byte b2) (\<lambda>(c, b3).
       Some (\<lparr>Length2 = l, Pubkey2 = k, CheckSig2 = c\<rparr>, b3))))"

text \<open>
  \<open>func parse\<close>, which the source calls at the two output templates: the decoder is the
  argument \<open>unpack\<close>.
\<close>

definition parse :: "'pk collab \<Rightarrow> (bytes \<Rightarrow> ('s \<times> bytes) option) \<Rightarrow> bytes \<Rightarrow> string + 's" where
  "parse env unpack data =
     (case unpack data of
        None \<Rightarrow> Inl (''this tx is not supported(unknown format) '' @ UnpackErr env)
      | Some (s, buf) \<Rightarrow>
          if length buf \<noteq> 0 then Inl ''this tx is not supported'' else Inr s)"

text \<open>\<open>func parseScriptsigH\<close>: the result is the buffer with the bytes left.\<close>

definition parseScriptsigH :: "bytes \<Rightarrow> string + bytes" where
  "parseScriptsigH data =
     (case Unpack_ScriptSigH data of
        None \<Rightarrow> Inl ''this tx is not supported(unknown format)''
      | Some (s, buf) \<Rightarrow>
          if length buf = 0 then Inl ''old type of scriptsig, ignoring''
          else if Prefix30 s \<noteq> 0x30 \<or> PrefixR02 s \<noteq> 0x02 \<or> PrefixL02 s \<noteq> 0x02
          then Inl ''unsuported scriptsig''
          else Inr buf)"

definition parseScriptsigT :: "bytes \<Rightarrow> string + ScriptSigT" where
  "parseScriptsigT buf =
     (case Unpack_ScriptSigT buf of
        None \<Rightarrow> Inl ''this tx is not supported(unknown format)''
      | Some (s, buf') \<Rightarrow>
          if length buf' \<noteq> 0 then Inl ''this tx is not supported'' else Inr s)"

definition checkTxin :: "'pk collab \<Rightarrow> ScriptSigT \<Rightarrow> string + 'pk" where
  "checkTxin env s =
     (if Postfix01 s \<noteq> 0x01 then Inl ''unsuported scriptsig''
      else case NewPublicKey env (Pubkey s) of
        Inl err \<Rightarrow> Inl err
      | Inr pubkey \<Rightarrow>
          if \<not> HasPubkey env pubkey
          then Inl (''not concerened address '' @ Address env pubkey)
          else Inr pubkey)"

definition checkTxout :: "'pk collab \<Rightarrow> Script \<Rightarrow> string + 'pk" where
  "checkTxout env s =
     (if Dup s \<noteq> opDUP \<or> Hash160 s \<noteq> opHASH160 \<or> HashLength s \<noteq> 0x14
         \<or> EqualVerify s \<noteq> opEQUALVERIFY \<or> CheckSig s \<noteq> opCHECKSIG
      then Inl ''unsuported scriptsig''
      else case HasPubHash env (PubHash s) of
        None \<Rightarrow> Inl ''not concerened address''
      | Some pubkey \<Rightarrow> Inr pubkey)"

definition checkTxout2 :: "'pk collab \<Rightarrow> Script2 \<Rightarrow> string + 'pk" where
  "checkTxout2 env s =
     (if CheckSig2 s \<noteq> opCHECKSIG then Inl ''unsuported scriptsig''
      else case NewPublicKey env (Pubkey2 s) of
        Inl err \<Rightarrow> Inl err
      | Inr pubkey \<Rightarrow>
          if \<not> HasPubkey env pubkey
          then Inl (''not concerened address'' @ Address env pubkey)
          else Inr pubkey)"

subsection \<open>The transaction processor\<close>

definition is_coinbase :: "txin \<Rightarrow> bool" where
  "is_coinbase i = (in_Hash i = replicate 32 0 \<and> in_Index i = 0xffffffff)"

text \<open>The body of the first loop of \<open>Add\<close>.\<close>

definition txin_step :: "'pk collab \<Rightarrow> txin \<Rightarrow> state \<Rightarrow> state" where
  "txin_step env i st =
     (if is_coinbase i then logln ''coinbase'' st
      else case parseScriptsigH (in_Script i) of
        Inl err \<Rightarrow> logln err st
      | Inr buf \<Rightarrow>
         (case parseScriptsigT buf of
            Inl err \<Rightarrow> logln err st
          | Inr s \<Rightarrow>
             (case checkTxin env s of
                Inl err \<Rightarrow> logln err st
              | Inr pubkey \<Rightarrow>
                 (case remove env pubkey (in_Hash i) (in_Index i) st of
                    (Some err, st') \<Rightarrow> logln err st'
                  | (None, st') \<Rightarrow> st'))))"

fun txins :: "'pk collab \<Rightarrow> txin list \<Rightarrow> state \<Rightarrow> state" where
  "txins env [] st = st"
| "txins env (i # is) st = txins env is (txin_step env i st)"

text \<open>
  The body of the second loop of \<open>Add\<close>, at position \<open>i\<close>; \<open>uint32(i)\<close> is
  \<open>of_nat i\<close>. \<open>log.Println\<close> puts a space between its operands.
\<close>

definition txout_step :: "'pk collab \<Rightarrow> Tx \<Rightarrow> nat \<Rightarrow> txout \<Rightarrow> state \<Rightarrow> panic + state" where
  "txout_step env mtx i out st =
     (let err = parse env Unpack_Script (out_Script out);
          err2 = parse env Unpack_Script2 (out_Script out);
          hex = EncodeToString env (TxHashOf env mtx)
      in case err of
        Inr s \<Rightarrow>
          (let st1 = logln ''pubkeyhash scriptsig'' st in
           case checkTxout env s of
             Inl err3 \<Rightarrow> Inr (logln (err3 @ '' '' @ hex) st1)
           | Inr pubkey \<Rightarrow> add env pubkey mtx (of_nat i) 0 st1)
      | Inl e \<Rightarrow>
          (case err2 of
             Inr s2 \<Rightarrow>
               (let st1 = logln ''pubkey scriptsig'' st in
                case checkTxout2 env s2 of
                  Inl err3 \<Rightarrow> Inr (logln (err3 @ '' '' @ hex) st1)
                | Inr pubkey \<Rightarrow> add env pubkey mtx (of_nat i) 1 st1)
           | Inl e2 \<Rightarrow>
               Inr (logln (''This txout is not supproted'' @ '' '' @ hex)
                      (logln (e @ '' '' @ e2) st))))"

fun txouts :: "'pk collab \<Rightarrow> Tx \<Rightarrow> nat \<Rightarrow> txout list \<Rightarrow> state \<Rightarrow> panic + state" where
  "txouts env mtx i [] st = Inr st"
| "txouts env mtx i (out # outs) st =
     (case txout_step env mtx i out st of
        Inl p \<Rightarrow> Inl p
      | Inr st' \<Rightarrow> txouts env mtx (Suc i) outs st')"

text \<open>
  \<open>func Add\<close>: the inputs, then the outputs, then \<open>return nil\<close>. The result is the
  error returned (\<open>None\<close> for nil) and the state, or the panic.
\<close>

definition Add :: "'pk collab \<Rightarrow> Tx \<Rightarrow> state \<Rightarrow> panic + (string option \<times> state)" where
  "Add env mtx st =
     (case txouts env mtx 0 (TxOut mtx) (txins env (TxIn mtx) st) of
        Inl p \<Rightarrow> Inl p
      | Inr st' \<Rightarrow> Inr (None, st'))"

subsection \<open>The invariant of the registry\<close>

text \<open>
  The pairs (transaction hash, output index) of the coins of one address are pairwise
  different; for the registry, at every address.
\<close>

definition addr_inv :: "state \<Rightarrow> bytes \<Rightarrow> bool" where
  "addr_inv st a = distinct (map (\<lambda>c. (TxHash c, TxIndex c)) (coins_of st a))"

definition registry_inv :: "state \<Rightarrow> bool" where
  "registry_inv st = (\<forall>a. addr_inv st a)"

subsection \<open>A concrete wallet\<close>

text \<open>
  A wallet with one key, used to run the definitions on concrete transactions: a key is
  its own serialisation, \<open>own_hash\<close> is the hash that looks up to \<open>own_key\<close>.
\<close>

definition own_key :: bytes where
  "own_key = 0x02 # replicate 32 0x11"

definition own_hash :: bytes where
  "own_hash = replicate 20 0x22"

definition example_keys :: "bytes collab" where
  "example_keys =
     \<lparr>NewPublicKey = (\<lambda>b. if length b = 33 then Inr b else Inl ''invalid public key''),
      HasPubkey = (\<lambda>k. k = own_key),
      HasPubHash = (\<lambda>h. if h = own_hash then Some own_key else None),
      Serialize = (\<lambda>k. k),
      Address = (\<lambda>k. ''address''),
      TxHashOf = (\<lambda>tx. replicate 32 0xAB),
      EncodeToString = (\<lambda>b. ''hex''),
      UnpackErr = ''EOF''\<rparr>"

definition coin_of :: "32 word \<Rightarrow> 64 word \<Rightarrow> Coin" where
  "coin_of i v =
     \<lparr>Addr = own_key, TxHash = replicate 32 0xAB, TxIndex = i, Value = v, Ttype = 0\<rparr>"

definition state_of :: "Coin list \<Rightarrow> state" where
  "state_of cs = \<lparr>coins = [own_key \<mapsto> cs], logs = []\<rparr>"

definition example_tx :: Tx where
  "example_tx =
     \<lparr>TxIn = [],
      TxOut = [\<lparr>out_Value = 5000,
                out_Script = [0x76, 0xA9, 0x14] @ own_hash @ [0x88, 0xAC]\<rparr>]\<rparr>"

subsection \<open>The steps of the processor as a check and an update\<close>

text \<open>
  Proof devices, equal to the source's steps by \<open>txin_step_eq\<close> and \<open>txout_step_eq\<close>
  below: the part of a step that does not read the state. For an input it is the line to
  log or the key whose coin is to be removed; for an output it is the lines logged and the
  key and type tag of the coin to add, if one is added.
\<close>

definition txin_check :: "'pk collab \<Rightarrow> txin \<Rightarrow> string + 'pk" where
  "txin_check env i =
     (if is_coinbase i then Inl ''coinbase''
      else case parseScriptsigH (in_Script i) of
        Inl err \<Rightarrow> Inl err
      | Inr buf \<Rightarrow>
         (case parseScriptsigT buf of
            Inl err \<Rightarrow> Inl err
          | Inr s \<Rightarrow> checkTxin env s))"

definition txout_check :: "'pk collab \<Rightarrow> Tx \<Rightarrow> txout \<Rightarrow> string list \<times> ('pk \<times> int) option" where
  "txout_check env mtx out =
     (let hex = EncodeToString env (TxHashOf env mtx) in
      case parse env Unpack_Script (out_Script out) of
        Inr s \<Rightarrow>
          (case checkTxout env s of
             Inl err3 \<Rightarrow> ([''pubkeyhash scriptsig'', err3 @ '' '' @ hex], None)
           | Inr pubkey \<Rightarrow> ([''pubkeyhash scriptsig''], Some (pubkey, 0)))
      | Inl e \<Rightarrow>
          (case parse env Unpack_Script2 (out_Script out) of
             Inr s2 \<Rightarrow>
               (case checkTxout2 env s2 of
                  Inl err3 \<Rightarrow> ([''pubkey scriptsig'', err3 @ '' '' @ hex], None)
                | Inr pubkey \<Rightarrow> ([''pubkey scriptsig''], Some (pubkey, 1)))
           | Inl e2 \<Rightarrow>
               ([e @ '' '' @ e2, ''This txout is not supproted'' @ '' '' @ hex], None)))"

definition logged :: "string list \<Rightarrow> state \<Rightarrow> state" where
  "logged ms st = st\<lparr>logs := logs st @ ms\<rparr>"

text \<open>
  The invariant of the second loop of \<open>Add\<close> at position \<open>k\<close>: the pairs of every
  address are distinct, and a coin with the hash \<open>H\<close> of the transaction has the index of
  an output before \<open>k\<close>.
\<close>

definition outs_inv :: "bytes \<Rightarrow> nat \<Rightarrow> state \<Rightarrow> bool" where
  "outs_inv H k st =
     (\<forall>a. addr_inv st a \<and> (\<forall>c\<in>set (coins_of st a). TxHash c = H \<longrightarrow> (\<exists>j<k. TxIndex c = of_nat j)))"

subsection \<open>Concrete inputs and outputs\<close>

text \<open>
  A coinbase input; an input whose signature script is a header and nothing else; an input
  whose signature script is a header and the tail with \<open>own_key\<close>; the two output
  templates for \<open>own_hash\<close> and \<open>own_key\<close>, and an output that matches neither.
\<close>

definition coinbase_in :: txin where
  "coinbase_in = \<lparr>in_Hash = replicate 32 0, in_Index = 0xffffffff, in_Script = [0x03, 0x01, 0x02, 0x03]\<rparr>"


definition old_sig_in :: txin where
  "old_sig_in =
     \<lparr>in_Hash = replicate 32 0xAB, in_Index = 0,
      in_Script = [0x08, 0x30, 0x06, 0x02, 0x01, 0xAA, 0x02, 0x01, 0xBB]\<rparr>"

definition spend_in :: txin where
  "spend_in =
     \<lparr>in_Hash = replicate 32 0xAB, in_Index = 0,
      in_Script = [0x08, 0x30, 0x06, 0x02, 0x01, 0xAA, 0x02, 0x01, 0xBB, 0x01, 0x21] @ own_key\<rparr>"

definition p2pkh_out :: txout where
  "p2pkh_out = \<lparr>out_Value = 5000, out_Script = [0x76, 0xA9, 0x14] @ own_hash @ [0x88, 0xAC]\<rparr>"

definition p2pk_out :: txout where
  "p2pk_out = \<lparr>out_Value = 7000, out_Script = [0x21] @ own_key @ [0xAC]\<rparr>"

definition junk_out :: txout where
  "junk_out = \<lparr>out_Value = 1, out_Script = [0x6A]\<rparr>"

definition three_tx :: Tx where
  "three_tx = \<lparr>TxIn = [], TxOut = [p2pkh_out, p2pk_out, junk_out]\<rparr>"

definition spend_tx :: Tx where
  "spend_tx = \<lparr>TxIn = [coinbase_in, spend_in], TxOut = [p2pkh_out]\<rparr>"

section \<open>The registry\<close>

subsection \<open>The scan and the removal by overwriting with the last entry\<close>

lemma scan_None_iff: "scan h i cs = None \<longleftrightarrow> (\<forall>c\<in>set cs. \<not> is_coin h i c)"
  by (induction cs) auto

lemma scan_Some:
  "scan h i cs = Some k \<Longrightarrow> k < length cs \<and> is_coin h i (cs ! k) \<and> (\<forall>j<k. \<not> is_coin h i (cs ! j))"
proof (induction cs arbitrary: k)
  case Nil
  then show ?case by simp
next
  case (Cons c cs)
  show ?case
  proof (cases "is_coin h i c")
    case True
    with Cons.prems show ?thesis by simp
  next
    case False
    with Cons.prems obtain k' where k': "scan h i cs = Some k'" "k = Suc k'"
      by auto
    from Cons.IH [OF k'(1)] False k'(2) show ?thesis
      by (auto simp: nth_Cons split: nat.splits)
  qed
qed

lemma mset_swap_remove:
  "k < length cs \<Longrightarrow> mset (butlast (cs[k := last cs])) = mset cs - {#cs ! k#}"
proof (induction cs arbitrary: k rule: rev_induct)
  case Nil
  then show ?case by simp
next
  case (snoc x xs)
  show ?case
  proof (cases "k < length xs")
    case True
    then have "butlast ((xs @ [x])[k := x]) = xs[k := x]"
      by (simp add: list_update_append)
    moreover have "mset (xs[k := x]) = mset xs - {#xs ! k#} + {#x#}"
      using True by (simp add: mset_update)
    ultimately show ?thesis using True
      by (simp add: nth_append)
  next
    case False
    with snoc.prems have "k = length xs" by simp
    then show ?thesis by simp
  qed
qed

lemma later_kept:
  assumes "k < j" "j < length cs"
  shows "cs ! j \<in> set (butlast (cs[k := last cs]))"
proof (cases "j = length cs - 1")
  case True
  with assms have k: "k < length (butlast (cs[k := last cs]))" by simp
  have "butlast (cs[k := last cs]) ! k = last cs"
    using k by (simp add: nth_butlast)
  moreover have "last cs = cs ! j"
    using True assms by (cases cs rule: rev_cases) (simp_all add: nth_append)
  ultimately show ?thesis using k by (metis nth_mem)
next
  case False
  with assms have j: "j < length (butlast (cs[k := last cs]))" by simp
  have "butlast (cs[k := last cs]) ! j = cs ! j"
    using j assms by (simp add: nth_butlast)
  then show ?thesis using j by (metis nth_mem)
qed

lemma coins_of_upd:
  "coins_of (st\<lparr>coins := (coins st)(a \<mapsto> cs)\<rparr>) b = (if b = a then cs else coins_of st b)"
  by (simp add: coins_of_def)

lemma coins_of_state_of: "coins_of (state_of cs) own_key = cs"
  by (simp add: coins_of_def state_of_def)

lemma Serialize_example: "Serialize example_keys k = k"
  by (simp add: example_keys_def)

subsection \<open>Removing an absent coin\<close>

text \<open>
  Claim C3. When no coin stored under the address has the pair (hash, index),
  \<open>remove\<close> returns the error \<open>coin was not found\<close> and the state it returns is the
  state it was given: the list of every address is unchanged.
\<close>

theorem remove_absent:
  assumes "\<forall>c\<in>set (coins_of st (Serialize env pub)). \<not> (TxHash c = hash \<and> TxIndex c = index)"
  shows "remove env pub hash index st = (Some ''coin was not found'', st)"
proof -
  have "scan hash index (coins_of st (Serialize env pub)) = None"
    using assms by (simp add: scan_None_iff is_coin_def)
  then show ?thesis by (simp add: remove_def Let_def)
qed

theorem remove_absent_witness:
  "remove example_keys own_key (replicate 32 0xAB) 1 (state_of [coin_of 0 5])
     = (Some ''coin was not found'', state_of [coin_of 0 5])"
proof -
  have h: "\<forall>c\<in>set (coins_of (state_of [coin_of 0 5]) (Serialize example_keys own_key)).
      \<not> (TxHash c = replicate 32 0xAB \<and> TxIndex c = 1)"
    by (simp add: Serialize_example coins_of_state_of coin_of_def)
  show ?thesis using remove_absent [OF h] by simp
qed

subsection \<open>Removing a coin that is present\<close>

text \<open>
  Claim C10. When the list of the address holds one or more coins with the pair
  (hash, index), \<open>remove\<close> returns no error and deletes exactly one coin, the one at the
  first matching position \<open>k\<close>: the new list is the old one with position \<open>k\<close>
  overwritten by the last entry and the last position cut, as a multiset it is the old
  one less the coin at \<open>k\<close>, and every coin at a later position, matching or not, is
  still in it.
\<close>

theorem remove_first_match:
  assumes "\<exists>c\<in>set (coins_of st (Serialize env pub)). TxHash c = hash \<and> TxIndex c = index"
  shows "\<exists>k. k < length (coins_of st (Serialize env pub))
     \<and> is_coin hash index (coins_of st (Serialize env pub) ! k)
     \<and> (\<forall>j<k. \<not> is_coin hash index (coins_of st (Serialize env pub) ! j))
     \<and> remove env pub hash index st =
         (None, st\<lparr>coins := (coins st)(Serialize env pub \<mapsto>
            butlast ((coins_of st (Serialize env pub))[k := last (coins_of st (Serialize env pub))]))\<rparr>)
     \<and> mset (butlast ((coins_of st (Serialize env pub))[k := last (coins_of st (Serialize env pub))]))
         = mset (coins_of st (Serialize env pub)) - {#coins_of st (Serialize env pub) ! k#}
     \<and> (\<forall>j. k < j \<and> j < length (coins_of st (Serialize env pub)) \<longrightarrow>
           coins_of st (Serialize env pub) ! j
             \<in> set (butlast ((coins_of st (Serialize env pub))[k := last (coins_of st (Serialize env pub))])))"
proof -
  let ?cs = "coins_of st (Serialize env pub)"
  from assms have "scan hash index ?cs \<noteq> None"
    by (auto simp: scan_None_iff is_coin_def)
  then obtain k where k: "scan hash index ?cs = Some k" by auto
  note s = scan_Some [OF k]
  have r: "remove env pub hash index st =
         (None, st\<lparr>coins := (coins st)(Serialize env pub \<mapsto> butlast (?cs[k := last ?cs]))\<rparr>)"
    using k by (simp add: remove_def Let_def)
  show ?thesis
    using s r mset_swap_remove [of k ?cs] later_kept [of k _ ?cs] by blast
qed

theorem remove_first_match_witness:
  "(\<exists>c\<in>set (coins_of (state_of [coin_of 0 5, coin_of 1 6, coin_of 1 7, coin_of 2 8]) (Serialize example_keys own_key)).
      TxHash c = replicate 32 0xAB \<and> TxIndex c = 1)
   \<and> remove example_keys own_key (replicate 32 0xAB) 1 (state_of [coin_of 0 5, coin_of 1 6, coin_of 1 7, coin_of 2 8])
       = (None, state_of [coin_of 0 5, coin_of 2 8, coin_of 1 7])"
proof -
  let ?st = "state_of [coin_of 0 5, coin_of 1 6, coin_of 1 7, coin_of 2 8]"
  have h: "\<exists>c\<in>set (coins_of ?st (Serialize example_keys own_key)).
      TxHash c = replicate 32 0xAB \<and> TxIndex c = 1"
    by (simp add: Serialize_example coins_of_state_of coin_of_def)
  from remove_first_match [OF h] obtain k where
    k: "k < length (coins_of ?st (Serialize example_keys own_key))"
       "is_coin (replicate 32 0xAB) 1 (coins_of ?st (Serialize example_keys own_key) ! k)"
       "\<forall>j<k. \<not> is_coin (replicate 32 0xAB) 1 (coins_of ?st (Serialize example_keys own_key) ! j)"
    and r: "remove example_keys own_key (replicate 32 0xAB) 1 ?st =
         (None, ?st\<lparr>coins := (coins ?st)(Serialize example_keys own_key \<mapsto>
            butlast ((coins_of ?st (Serialize example_keys own_key))
               [k := last (coins_of ?st (Serialize example_keys own_key))]))\<rparr>)"
    by blast
  have "k = 1"
  proof -
    have "k < 4" using k(1) by (simp add: Serialize_example coins_of_state_of)
    then have "k = 0 \<or> k = 1 \<or> k = 2 \<or> k = 3" by arith
    moreover have "k \<noteq> 0"
    proof
      assume "k = 0"
      with k(2) show False
        by (simp add: Serialize_example coins_of_state_of is_coin_def coin_of_def)
    qed
    moreover have "k \<noteq> 3"
    proof
      assume "k = 3"
      with k(2) show False
        by (simp add: Serialize_example coins_of_state_of is_coin_def coin_of_def)
    qed
    moreover have "k \<noteq> 2"
    proof
      assume "k = 2"
      with k(3) have "\<not> is_coin (replicate 32 0xAB) 1 (coins_of ?st (Serialize example_keys own_key) ! 1)"
        by simp
      then show False
        by (simp add: Serialize_example coins_of_state_of is_coin_def coin_of_def)
    qed
    ultimately show ?thesis by blast
  qed
  with r have "remove example_keys own_key (replicate 32 0xAB) 1 ?st
       = (None, state_of [coin_of 0 5, coin_of 2 8, coin_of 1 7])"
    by (simp add: Serialize_example coins_of_state_of) (simp add: state_of_def)
  with h show ?thesis by simp
qed

subsection \<open>Adding and then removing\<close>

text \<open>
  Claim C8. Adding a coin for an address (for an output that the transaction has) and
  then removing the same (address, hash, index) succeeds and restores the number of
  coins of that address, and of every other address.
\<close>

theorem add_then_remove_count:
  assumes "unat index < length (TxOut tx)"
  shows "\<exists>st1 st2. add env pub tx index ttype st = Inr st1
     \<and> remove env pub (TxHashOf env tx) index st1 = (None, st2)
     \<and> (\<forall>b. length (coins_of st2 b) = length (coins_of st b))"
proof -
  let ?a = "Serialize env pub"
  let ?c = "\<lparr>Addr = ?a, TxHash = TxHashOf env tx, TxIndex = index,
            Value = out_Value (TxOut tx ! unat index), Ttype = ttype\<rparr>"
  let ?st1 = "st\<lparr>coins := (coins st)(?a \<mapsto> coins_of st ?a @ [?c])\<rparr>"
  have a: "add env pub tx index ttype st = Inr ?st1"
    using assms by (simp add: add_def Let_def)
  have cs1: "coins_of ?st1 ?a = coins_of st ?a @ [?c]"
    by (simp add: coins_of_upd)
  have "scan (TxHashOf env tx) index (coins_of ?st1 ?a) \<noteq> None"
    unfolding cs1 by (simp add: scan_None_iff is_coin_def)
  then obtain k where k: "scan (TxHashOf env tx) index (coins_of ?st1 ?a) = Some k" by auto
  let ?new = "butlast ((coins_of ?st1 ?a)[k := last (coins_of ?st1 ?a)])"
  let ?st2 = "?st1\<lparr>coins := (coins ?st1)(?a \<mapsto> ?new)\<rparr>"
  have r: "remove env pub (TxHashOf env tx) index ?st1 = (None, ?st2)"
    using k by (simp add: remove_def Let_def)
  have len: "length ?new = length (coins_of st ?a)"
    unfolding cs1 by simp
  have "length (coins_of ?st2 b) = length (coins_of st b)" for b
  proof (cases "b = ?a")
    case True
    have "coins_of ?st2 ?a = ?new" by (simp add: coins_of_def)
    with len True show ?thesis by simp
  next
    case False
    then show ?thesis by (simp add: coins_of_def)
  qed
  with a r show ?thesis by blast
qed

theorem add_then_remove_count_witness:
  "unat (0 :: 32 word) < length (TxOut example_tx)
   \<and> (\<exists>st1 st2. add example_keys own_key example_tx 0 0 (state_of [coin_of 3 9]) = Inr st1
     \<and> remove example_keys own_key (TxHashOf example_keys example_tx) 0 st1 = (None, st2)
     \<and> length (coins_of st2 own_key) = 1)"
proof -
  have h: "unat (0 :: 32 word) < length (TxOut example_tx)"
    by (simp add: example_tx_def)
  from add_then_remove_count [OF h, of example_keys own_key 0 "state_of [coin_of 3 9]"]
  obtain st1 st2 where
    a: "add example_keys own_key example_tx 0 0 (state_of [coin_of 3 9]) = Inr st1"
    and r: "remove example_keys own_key (TxHashOf example_keys example_tx) 0 st1 = (None, st2)"
    and l: "\<forall>b. length (coins_of st2 b) = length (coins_of (state_of [coin_of 3 9]) b)"
    by blast
  from l have "length (coins_of st2 own_key) = 1"
    by (simp add: coins_of_state_of)
  with h a r show ?thesis by blast
qed

section \<open>The transaction processor\<close>

subsection \<open>The call returns\<close>

lemma unat_uint32_le: "unat (of_nat i :: 32 word) \<le> i"
  by (simp add: unat_of_nat)

lemma add_Inr:
  "unat index < length (TxOut mtx) \<Longrightarrow> \<exists>st'. add env pub mtx index ttype st = Inr st'"
  by (simp add: add_def Let_def)

lemma txout_step_Inr:
  assumes "i < length (TxOut mtx)"
  shows "\<exists>st'. txout_step env mtx i out st = Inr st'"
proof -
  have "unat (of_nat i :: 32 word) < length (TxOut mtx)"
    using assms unat_uint32_le [of i] by simp
  then have "\<exists>st'. add env pub mtx (of_nat i) ttype s = Inr st'" for pub ttype s
    by (rule add_Inr)
  then show ?thesis
    by (simp add: txout_step_def Let_def split: sum.split)
qed

lemma txouts_Inr:
  "i + length outs \<le> length (TxOut mtx) \<Longrightarrow> \<exists>st'. txouts env mtx i outs st = Inr st'"
proof (induction outs arbitrary: i st)
  case Nil
  then show ?case by simp
next
  case (Cons out outs)
  then have "i < length (TxOut mtx)" by simp
  from txout_step_Inr [OF this] obtain s where s: "txout_step env mtx i out st = Inr s"
    by blast
  from Cons.prems have "Suc i + length outs \<le> length (TxOut mtx)" by simp
  from Cons.IH [OF this] s show ?case by simp
qed

lemma Add_Inr: "\<exists>st'. Add env mtx st = Inr (None, st')"
proof -
  obtain s where "txouts env mtx 0 (TxOut mtx) (txins env (TxIn mtx) st) = Inr s"
    using txouts_Inr [of 0 "TxOut mtx" mtx] by auto
  then show ?thesis by (simp add: Add_def)
qed

text \<open>
  Claim C4. For every decoded transaction and every state, \<open>Add\<close> returns, and the error
  it returns is nil: it does not panic (the index \<open>uint32(i)\<close> at which \<open>add\<close> reads
  \<open>tx.TxOut\<close> is at most the position \<open>i\<close> of an output), and every failure at an input
  or an output is a branch of the step that writes a log line and goes on. What it returns
  besides is the state, which holds the registry and the log and nothing else.
\<close>

theorem Add_returns_nil: "\<exists>st'. Add env mtx st = Inr (None, st')"
  by (rule Add_Inr)

theorem Add_returns_nil_witness:
  "\<exists>st'. Add example_keys three_tx (state_of []) = Inr (None, st')"
  by (rule Add_returns_nil)

subsection \<open>The steps as a check and an update\<close>

lemma txins_append: "txins env (xs @ ys) st = txins env ys (txins env xs st)"
  by (induction xs arbitrary: st) simp_all

lemma coins_logln [simp]: "coins (logln m st) = coins st"
  by (simp add: logln_def)

lemma coins_of_logln [simp]: "coins_of (logln m st) a = coins_of st a"
  by (simp add: coins_of_def)

lemma txin_step_eq:
  "txin_step env i st =
     (case txin_check env i of
        Inl m \<Rightarrow> logln m st
      | Inr pubkey \<Rightarrow>
         (case remove env pubkey (in_Hash i) (in_Index i) st of
            (Some err, st') \<Rightarrow> logln err st'
          | (None, st') \<Rightarrow> st'))"
  by (simp add: txin_step_def txin_check_def split: sum.split)

lemma txout_step_eq:
  "txout_step env mtx i out st =
     (case txout_check env mtx out of
        (ms, None) \<Rightarrow> Inr (logged ms st)
      | (ms, Some (pubkey, ttype)) \<Rightarrow> add env pubkey mtx (of_nat i) ttype (logged ms st))"
  by (simp add: txout_step_def txout_check_def Let_def logged_def logln_def split: sum.split)

lemma coins_logged [simp]: "coins (logged ms st) = coins st"
  by (simp add: logged_def)

lemma coins_of_logged [simp]: "coins_of (logged ms st) a = coins_of st a"
  by (simp add: coins_of_def)

text \<open>The registry after a step depends on the registry before it only, not on the log.\<close>

lemma remove_coins_cong:
  "coins s = coins s' \<Longrightarrow>
     fst (remove env pub h i s) = fst (remove env pub h i s')
     \<and> coins (snd (remove env pub h i s)) = coins (snd (remove env pub h i s'))"
  by (simp add: remove_def Let_def coins_of_def split: option.split)

lemma txin_step_coins_cong:
  assumes "coins s = coins s'"
  shows "coins (txin_step env i s) = coins (txin_step env i s')"
proof (cases "txin_check env i")
  case (Inl m)
  with assms show ?thesis by (simp add: txin_step_eq)
next
  case (Inr pub)
  obtain e t where r: "remove env pub (in_Hash i) (in_Index i) s = (e, t)"
    by (cases "remove env pub (in_Hash i) (in_Index i) s")
  obtain e' t' where r': "remove env pub (in_Hash i) (in_Index i) s' = (e', t')"
    by (cases "remove env pub (in_Hash i) (in_Index i) s'")
  from remove_coins_cong [OF assms, of env pub "in_Hash i" "in_Index i"] r r'
  have "e = e'" "coins t = coins t'" by simp_all
  with Inr r r' show ?thesis
    by (simp add: txin_step_eq split: option.split)
qed

lemma txins_coins_cong:
  "coins s = coins s' \<Longrightarrow> coins (txins env is s) = coins (txins env is s')"
proof (induction "is" arbitrary: s s')
  case Nil
  then show ?case by simp
next
  case (Cons i "is")
  have "coins (txin_step env i s) = coins (txin_step env i s')"
    by (rule txin_step_coins_cong [OF Cons.prems])
  from Cons.IH [OF this] show ?case by simp
qed

lemma add_coins_cong:
  "coins s = coins s' \<Longrightarrow>
     map_sum id coins (add env pub mtx k ty s) = map_sum id coins (add env pub mtx k ty s')"
  by (simp add: add_def Let_def coins_of_def)

lemma txout_step_coins_cong:
  assumes "coins s = coins s'"
  shows "map_sum id coins (txout_step env mtx i out s) = map_sum id coins (txout_step env mtx i out s')"
proof -
  obtain ms r where c: "txout_check env mtx out = (ms, r)"
    by (cases "txout_check env mtx out")
  show ?thesis
  proof (cases r)
    case None
    with c assms show ?thesis by (simp add: txout_step_eq)
  next
    case (Some k)
    obtain pub ty where k: "k = (pub, ty)" by (cases k)
    have "coins (logged ms s) = coins (logged ms s')"
      using assms by simp
    from add_coins_cong [OF this] c Some k show ?thesis
      by (simp add: txout_step_eq)
  qed
qed

lemma txouts_coins_cong:
  "coins s = coins s' \<Longrightarrow>
     map_sum id coins (txouts env mtx i outs s) = map_sum id coins (txouts env mtx i outs s')"
proof (induction outs arbitrary: i s s')
  case Nil
  then show ?case by simp
next
  case (Cons out outs)
  note c = txout_step_coins_cong [OF Cons.prems, of env mtx i out]
  show ?case
  proof (cases "txout_step env mtx i out s")
    case (Inl p)
    with c show ?thesis by (cases "txout_step env mtx i out s'") simp_all
  next
    case (Inr t)
    with c obtain t' where t': "txout_step env mtx i out s' = Inr t'" "coins t = coins t'"
      by (cases "txout_step env mtx i out s'") simp_all
    from Cons.IH [OF t'(2)] Inr t'(1) show ?thesis by simp
  qed
qed

subsection \<open>The coins that the second loop appends\<close>

lemma Unpack_Script_p2pkh:
  "length h = 20 \<Longrightarrow>
     Unpack_Script ([d, hh, l] @ h @ [e, c]) =
       Some (\<lparr>Dup = d, Hash160 = hh, HashLength = l, PubHash = h, EqualVerify = e, CheckSig = c\<rparr>, [])"
  by (simp add: Unpack_Script_def read_bytes_def)

lemma txout_check_p2pkh:
  assumes "out_Script out = [0x76, 0xA9, 0x14] @ h @ [0x88, 0xAC]" "length h = 20"
    "HasPubHash env h = Some pk"
  shows "txout_check env mtx out = ([''pubkeyhash scriptsig''], Some (pk, 0))"
  using assms Unpack_Script_p2pkh [OF assms(2), of "0x76" "0xA9" "0x14" "0x88" "0xAC"]
  by (simp add: txout_check_def parse_def checkTxout_def opDUP_def opHASH160_def
      opEQUALVERIFY_def opCHECKSIG_def)

lemma add_coins_of:
  assumes "add env pk mtx idx ty st = Inr st'"
  shows "coins_of st' a = coins_of st a @
     (if a = Serialize env pk
      then [\<lparr>Addr = Serialize env pk, TxHash = TxHashOf env mtx, TxIndex = idx,
              Value = out_Value (TxOut mtx ! unat idx), Ttype = ty\<rparr>]
      else [])"
  using assms by (auto simp: add_def Let_def coins_of_def split: if_splits)

lemma txout_step_new:
  assumes "txout_step env mtx k out st = Inr st'"
  shows "\<exists>new. coins_of st' a = coins_of st a @ new \<and> (\<forall>c\<in>set new. TxIndex c = of_nat k)"
proof -
  obtain ms r where c: "txout_check env mtx out = (ms, r)"
    by (cases "txout_check env mtx out")
  show ?thesis
  proof (cases r)
    case None
    with c assms have "st' = logged ms st" by (simp add: txout_step_eq)
    then show ?thesis by simp
  next
    case (Some q)
    obtain pk ty where q: "q = (pk, ty)" by (cases q)
    from c Some q assms have "add env pk mtx (of_nat k) ty (logged ms st) = Inr st'"
      by (simp add: txout_step_eq)
    from add_coins_of [OF this, of a] show ?thesis by simp
  qed
qed

lemma txouts_new:
  "txouts env mtx k outs st = Inr st' \<Longrightarrow>
     \<exists>new. coins_of st' a = coins_of st a @ new
        \<and> (\<forall>c\<in>set new. \<exists>j. k \<le> j \<and> j < k + length outs \<and> TxIndex c = of_nat j)"
proof (induction outs arbitrary: k st)
  case Nil
  then show ?case by simp
next
  case (Cons out outs)
  from Cons.prems obtain s where s: "txout_step env mtx k out st = Inr s"
    and r: "txouts env mtx (Suc k) outs s = Inr st'"
    by (auto split: sum.splits)
  from txout_step_new [OF s, of a] obtain n1 where
    n1: "coins_of s a = coins_of st a @ n1" "\<forall>c\<in>set n1. TxIndex c = of_nat k"
    by blast
  from Cons.IH [OF r] obtain n2 where
    n2: "coins_of st' a = coins_of s a @ n2"
      "\<forall>c\<in>set n2. \<exists>j. Suc k \<le> j \<and> j < Suc k + length outs \<and> TxIndex c = of_nat j"
    by blast
  have "coins_of st' a = coins_of st a @ (n1 @ n2)"
    using n1(1) n2(1) by simp
  moreover have "\<forall>c\<in>set (n1 @ n2). \<exists>j. k \<le> j \<and> j < k + length (out # outs) \<and> TxIndex c = of_nat j"
  proof
    fix c assume "c \<in> set (n1 @ n2)"
    then consider "c \<in> set n1" | "c \<in> set n2" by auto
    then show "\<exists>j. k \<le> j \<and> j < k + length (out # outs) \<and> TxIndex c = of_nat j"
    proof cases
      case 1
      with n1(2) have "TxIndex c = of_nat k" by blast
      then show ?thesis by (intro exI [of _ k]) simp
    next
      case 2
      with n2(2) obtain j where "Suc k \<le> j" "j < Suc k + length outs" "TxIndex c = of_nat j"
        by blast
      then show ?thesis by (intro exI [of _ j]) simp
    qed
  qed
  ultimately show ?case by blast
qed

lemma txouts_append:
  "txouts env mtx k (xs @ ys) st =
     (case txouts env mtx k xs st of
        Inl p \<Rightarrow> Inl p
      | Inr s \<Rightarrow> txouts env mtx (k + length xs) ys s)"
  by (induction xs arbitrary: k st) (simp_all split: sum.split)

lemma uint32_inj:
  "i < 2 ^ 32 \<Longrightarrow> j < 2 ^ 32 \<Longrightarrow> (of_nat i :: 32 word) = of_nat j \<Longrightarrow> i = j"
proof -
  assume a: "i < 2 ^ 32" "j < 2 ^ 32" "(of_nat i :: 32 word) = of_nat j"
  from a(3) have "unat (of_nat i :: 32 word) = unat (of_nat j :: 32 word)" by simp
  with a(1,2) show "i = j" by (simp add: unat_of_nat)
qed

subsection \<open>The concrete wallet\<close>

lemma length_own_key: "length own_key = 33"
  by (simp add: own_key_def)

lemma length_own_hash: "length own_hash = 20"
  by (simp add: own_hash_def)

lemma HasPubHash_example: "HasPubHash example_keys own_hash = Some own_key"
  by (simp add: example_keys_def)

lemma TxHashOf_example: "TxHashOf example_keys mtx = replicate 32 0xAB"
  by (simp add: example_keys_def)

lemma EncodeToString_example: "EncodeToString example_keys b = ''hex''"
  by (simp add: example_keys_def)

lemma registry_inv_state_of: "distinct (map (\<lambda>c. (TxHash c, TxIndex c)) cs) \<Longrightarrow> registry_inv (state_of cs)"
  by (simp add: registry_inv_def addr_inv_def coins_of_def state_of_def)

lemma parse_p2pkh_example:
  "parse example_keys Unpack_Script (out_Script p2pkh_out) =
     Inr \<lparr>Dup = 0x76, Hash160 = 0xA9, HashLength = 0x14, PubHash = own_hash,
          EqualVerify = 0x88, CheckSig = 0xAC\<rparr>"
  using Unpack_Script_p2pkh [OF length_own_hash, of "0x76" "0xA9" "0x14" "0x88" "0xAC"]
  by (simp add: parse_def p2pkh_out_def)

lemma example_tx_out: "TxOut example_tx = [p2pkh_out]" "TxIn example_tx = []"
  by (simp_all add: example_tx_def p2pkh_out_def)

lemma txout_step_p2pkh_example:
  "i < length (TxOut mtx) \<Longrightarrow>
   txout_step example_keys mtx i p2pkh_out st =
     Inr (st\<lparr>coins := (coins st)(own_key \<mapsto> coins_of st own_key @
             [\<lparr>Addr = own_key, TxHash = replicate 32 0xAB, TxIndex = of_nat i,
               Value = out_Value (TxOut mtx ! unat (of_nat i :: 32 word)), Ttype = 0\<rparr>]),
            logs := logs st @ [''pubkeyhash scriptsig'']\<rparr>)"
proof -
  assume "i < length (TxOut mtx)"
  then have u: "unat (of_nat i :: 32 word) < length (TxOut mtx)"
    using unat_uint32_le [of i] by simp
  have c: "checkTxout example_keys \<lparr>Dup = 0x76, Hash160 = 0xA9, HashLength = 0x14, PubHash = own_hash,
          EqualVerify = 0x88, CheckSig = 0xAC\<rparr> = Inr own_key"
    by (simp add: checkTxout_def opDUP_def opHASH160_def opEQUALVERIFY_def opCHECKSIG_def
        example_keys_def)
  show ?thesis
    by (simp add: txout_step_def parse_p2pkh_example c Let_def add_def u logln_def
        Serialize_example coins_of_def) (simp add: example_keys_def)
qed

lemma Add_example_tx:
  "Add example_keys example_tx st =
     Inr (None, st\<lparr>coins := (coins st)(own_key \<mapsto> coins_of st own_key @ [coin_of 0 5000]),
                   logs := logs st @ [''pubkeyhash scriptsig'']\<rparr>)"
proof -
  have "txout_step example_keys example_tx 0 p2pkh_out st = 
     Inr (st\<lparr>coins := (coins st)(own_key \<mapsto> coins_of st own_key @ [coin_of 0 5000]),
                   logs := logs st @ [''pubkeyhash scriptsig'']\<rparr>)"
    by (subst txout_step_p2pkh_example) (simp_all add: example_tx_out coin_of_def p2pkh_out_def)
  then show ?thesis
    by (simp add: Add_def example_tx_out)
qed

lemma parseScriptsigH_spend:
  "parseScriptsigH (in_Script spend_in) = Inr (0x01 # 0x21 # own_key)"
  by (simp add: parseScriptsigH_def spend_in_def Unpack_ScriptSigH_def read_bytes_def)

lemma parseScriptsigT_spend:
  "parseScriptsigT (0x01 # 0x21 # own_key) = Inr \<lparr>Postfix01 = 0x01, Length = 0x21, Pubkey = own_key\<rparr>"
  by (simp add: parseScriptsigT_def Unpack_ScriptSigT_def read_bytes_def length_own_key)

lemma checkTxin_spend:
  "checkTxin example_keys \<lparr>Postfix01 = 0x01, Length = 0x21, Pubkey = own_key\<rparr> = Inr own_key"
  by (simp add: checkTxin_def example_keys_def length_own_key)

lemma not_coinbase_spend: "\<not> is_coinbase spend_in"
  by (simp add: is_coinbase_def spend_in_def)

lemma Unpack_ScriptSigH_old:
  "Unpack_ScriptSigH (in_Script old_sig_in) =
     Some (\<lparr>SigLength = 0x08, Prefix30 = 0x30, RSLength = 0x06, PrefixR02 = 0x02,
             RLength = 0x01, R = [0xAA], PrefixL02 = 0x02, SLength = 0x01, S = [0xBB]\<rparr>, [])"
  by (simp add: old_sig_in_def Unpack_ScriptSigH_def read_bytes_def)

lemma remove_example_present:
  "remove example_keys own_key (replicate 32 0xAB) 0 (logln m (state_of [coin_of 0 5]))
     = (None, \<lparr>coins = [own_key \<mapsto> []], logs = [m]\<rparr>)"
  by (simp add: remove_def Let_def Serialize_example coins_of_state_of is_coin_def coin_of_def)
     (simp add: state_of_def logln_def)

lemma checkTxout_example:
  "checkTxout example_keys \<lparr>Dup = 0x76, Hash160 = 0xA9, HashLength = 0x14, PubHash = own_hash,
      EqualVerify = 0x88, CheckSig = 0xAC\<rparr> = Inr own_key"
  by (simp add: checkTxout_def opDUP_def opHASH160_def opEQUALVERIFY_def opCHECKSIG_def
      example_keys_def)

lemma parse_p2pk_as_p2pkh:
  "parse example_keys Unpack_Script (out_Script p2pk_out) = Inl ''this tx is not supported''"
  by (simp add: parse_def p2pk_out_def own_key_def Unpack_Script_def read_bytes_def
      eval_nat_numeral)

lemma parse_p2pk_example:
  "parse example_keys Unpack_Script2 (out_Script p2pk_out) =
     Inr \<lparr>Length2 = 0x21, Pubkey2 = own_key, CheckSig2 = 0xAC\<rparr>"
  by (simp add: parse_def p2pk_out_def Unpack_Script2_def read_bytes_def length_own_key)

lemma checkTxout2_example:
  "checkTxout2 example_keys \<lparr>Length2 = 0x21, Pubkey2 = own_key, CheckSig2 = 0xAC\<rparr> = Inr own_key"
  by (simp add: checkTxout2_def opCHECKSIG_def example_keys_def length_own_key)

lemma parse_junk:
  "parse example_keys Unpack_Script (out_Script junk_out) =
     Inl ''this tx is not supported(unknown format) EOF''"
  "parse example_keys Unpack_Script2 (out_Script junk_out) =
     Inl ''this tx is not supported(unknown format) EOF''"
  by (simp_all add: parse_def junk_out_def Unpack_Script_def Unpack_Script2_def read_bytes_def
      example_keys_def)

lemma three_tx_outs:
  "TxOut three_tx = [p2pkh_out, p2pk_out, junk_out]"
  by (simp add: three_tx_def)

subsection \<open>The coinbase input\<close>




subsection \<open>A signature script that is a header and nothing else\<close>

text \<open>
  Claim C7. When the header of the signature script of an input decodes completely and
  leaves no byte in the buffer, \<open>parseScriptsigH\<close> returns the error
  \<open>old type of scriptsig, ignoring\<close>, which it returns in no other case (the markers are
  not looked at before). The step of that input writes one log line and leaves the registry
  as it is: the line is this error, or \<open>coinbase\<close> when the input is the coinbase
  sentinel, which the loop tests first. The inputs after it are processed from the state
  with that line added, \<open>Add\<close> returns nil, and the registry it returns is the one that
  the same outputs give after the inputs without this one.
\<close>

theorem old_scriptsig_skipped:
  assumes "Unpack_ScriptSigH (in_Script i) = Some (h, [])"
  shows "parseScriptsigH (in_Script i) = Inl ''old type of scriptsig, ignoring''
     \<and> (\<forall>d. parseScriptsigH d = Inl ''old type of scriptsig, ignoring''
            \<longrightarrow> (\<exists>h'. Unpack_ScriptSigH d = Some (h', [])))
     \<and> txin_step env i st =
         logln (if is_coinbase i then ''coinbase'' else ''old type of scriptsig, ignoring'') st
     \<and> coins (txin_step env i st) = coins st
     \<and> txins env (pre @ i # post) st =
         txins env post
           (logln (if is_coinbase i then ''coinbase'' else ''old type of scriptsig, ignoring'')
              (txins env pre st))
     \<and> (TxIn mtx = pre @ i # post \<longrightarrow>
          (\<exists>st'. Add env mtx st = Inr (None, st')
             \<and> Inr (coins st') =
                 map_sum id coins (txouts env mtx 0 (TxOut mtx) (txins env (pre @ post) st))))"
proof -
  let ?m = "if is_coinbase i then ''coinbase'' else ''old type of scriptsig, ignoring''"
  have p: "parseScriptsigH (in_Script i) = Inl ''old type of scriptsig, ignoring''"
    using assms by (simp add: parseScriptsigH_def)
  have d: "\<exists>h'. Unpack_ScriptSigH d = Some (h', [])"
    if "parseScriptsigH d = Inl ''old type of scriptsig, ignoring''" for d
    using that by (auto simp: parseScriptsigH_def split: option.splits if_splits)
  have s: "txin_step env i st = logln ?m st" for st
    using p by (simp add: txin_step_def)
  have t: "txins env (pre @ i # post) st = txins env post (logln ?m (txins env pre st))"
    by (simp add: txins_append s)
  have a: "\<exists>st'. Add env mtx st = Inr (None, st')
       \<and> Inr (coins st') = map_sum id coins (txouts env mtx 0 (TxOut mtx) (txins env (pre @ post) st))"
    if m: "TxIn mtx = pre @ i # post"
  proof -
    have "coins (txins env post (logln ?m (txins env pre st))) = coins (txins env post (txins env pre st))"
      by (rule txins_coins_cong) simp
    then have c: "coins (txins env (TxIn mtx) st) = coins (txins env (pre @ post) st)"
      by (simp add: m s txins_append)
    obtain st' where st': "txouts env mtx 0 (TxOut mtx) (txins env (TxIn mtx) st) = Inr st'"
      using txouts_Inr [of 0 "TxOut mtx" mtx] by auto
    from txouts_coins_cong [OF c, of env mtx 0 "TxOut mtx"] st'
    have "Inr (coins st') = map_sum id coins (txouts env mtx 0 (TxOut mtx) (txins env (pre @ post) st))"
      by simp
    with st' show ?thesis by (simp add: Add_def)
  qed
  from p d s t a show ?thesis by (simp add: s)
qed

theorem old_scriptsig_skipped_witness:
  "parseScriptsigH (in_Script old_sig_in) = Inl ''old type of scriptsig, ignoring''
   \<and> txin_step example_keys old_sig_in (state_of [coin_of 0 5]) =
       \<lparr>coins = [own_key \<mapsto> [coin_of 0 5]], logs = [''old type of scriptsig, ignoring'']\<rparr>
   \<and> txins example_keys [old_sig_in, spend_in] (state_of [coin_of 0 5]) =
       \<lparr>coins = [own_key \<mapsto> []], logs = [''old type of scriptsig, ignoring'']\<rparr>"
proof -
  note t = old_scriptsig_skipped [OF Unpack_ScriptSigH_old, of example_keys "state_of [coin_of 0 5]"
      "[]" "[spend_in]"]
  have nc: "\<not> is_coinbase old_sig_in"
    by (simp add: is_coinbase_def old_sig_in_def)
  from t have 1: "parseScriptsigH (in_Script old_sig_in) = Inl ''old type of scriptsig, ignoring''"
    by blast
  from t nc have 2: "txin_step example_keys old_sig_in (state_of [coin_of 0 5]) =
      logln ''old type of scriptsig, ignoring'' (state_of [coin_of 0 5])"
    by simp
  from t nc have "txins example_keys ([] @ old_sig_in # [spend_in]) (state_of [coin_of 0 5]) =
      txins example_keys [spend_in]
        (logln ''old type of scriptsig, ignoring'' (txins example_keys [] (state_of [coin_of 0 5])))"
    by simp
  also have "\<dots> = txin_step example_keys spend_in
        (logln ''old type of scriptsig, ignoring'' (state_of [coin_of 0 5]))"
    by simp
  also have "\<dots> = \<lparr>coins = [own_key \<mapsto> []], logs = [''old type of scriptsig, ignoring'']\<rparr>"
    by (simp add: txin_step_def not_coinbase_spend parseScriptsigH_spend parseScriptsigT_spend
        checkTxin_spend) (simp add: spend_in_def remove_example_present)
  finally have 3: "txins example_keys [old_sig_in, spend_in] (state_of [coin_of 0 5]) =
       \<lparr>coins = [own_key \<mapsto> []], logs = [''old type of scriptsig, ignoring'']\<rparr>"
    by simp
  from 1 2 3 show ?thesis by (simp add: logln_def state_of_def)
qed

subsection \<open>An input that spends a coin of the wallet\<close>

lemma txin_step_owned:
  assumes nc: "\<not> is_coinbase i"
    and hd: "parseScriptsigH (in_Script i) = Inr buf"
    and tl: "parseScriptsigT buf = Inr s"
    and ck: "checkTxin env s = Inr pubkey"
  shows "txin_step env i st =
         (case remove env pubkey (in_Hash i) (in_Index i) st of
            (Some err, st') \<Rightarrow> logln err st'
          | (None, st') \<Rightarrow> st')"
  using nc hd tl ck by (simp add: txin_step_def)

lemma remove_absent_eq:
  assumes "\<forall>c\<in>set (coins_of st (Serialize env pub)). \<not> (TxHash c = h \<and> TxIndex c = k)"
  shows "remove env pub h k st = (Some ''coin was not found'', st)"
proof -
  have "scan h k (coins_of st (Serialize env pub)) = None"
    using assms by (simp add: scan_None_iff is_coin_def)
  then show ?thesis by (simp add: remove_def Let_def)
qed

lemma remove_present_facts:
  assumes "\<exists>c\<in>set (coins_of st (Serialize env pub)). TxHash c = h \<and> TxIndex c = k"
  shows "fst (remove env pub h k st) = None
     \<and> logs (snd (remove env pub h k st)) = logs st
     \<and> length (coins_of (snd (remove env pub h k st)) (Serialize env pub))
         = length (coins_of st (Serialize env pub)) - 1"
proof -
  from assms have "scan h k (coins_of st (Serialize env pub)) \<noteq> None"
    by (auto simp: scan_None_iff is_coin_def)
  then obtain j where "scan h k (coins_of st (Serialize env pub)) = Some j"
    by auto
  then show ?thesis by (simp add: remove_def Let_def coins_of_upd)
qed

lemma out_Value_p2pkh: "out_Value p2pkh_out = 5000"
  by (simp add: p2pkh_out_def)

lemma spend_tx_fields:
  "TxIn spend_tx = [coinbase_in] @ spend_in # []" "TxOut spend_tx = [p2pkh_out]"
  by (simp_all add: spend_tx_def)

lemma txins_coinbase_example:
  "txin_step example_keys coinbase_in st = logln ''coinbase'' st"
  by (simp add: txin_step_def is_coinbase_def coinbase_in_def)

lemma remove_example_absent:
  "remove example_keys own_key (replicate 32 0xAB) 0 (logln m (state_of [coin_of 1 6]))
     = (Some ''coin was not found'', logln m (state_of [coin_of 1 6]))"
  by (simp add: remove_def Let_def Serialize_example coins_of_state_of is_coin_def coin_of_def)

lemma spend_in_fields: "in_Hash spend_in = replicate 32 0xAB" "in_Index spend_in = 0"
  by (simp_all add: spend_in_def)

text \<open>
  Claim C6. Let the transaction have the inputs \<open>pre @ i # post\<close>, where \<open>i\<close> is not the
  coinbase sentinel, its signature script decodes (header and tail) and its tail passes
  \<open>checkTxin\<close> with the key \<open>pubkey\<close> (the sighash byte is \<open>0x01\<close>, the key parses and
  the wallet has it). Then the first loop of \<open>Add\<close>, in the state that the inputs \<open>pre\<close>
  have left, calls \<open>remove(pubkey, in.Hash, in.Index)\<close>: the key, the transaction hash
  that the input refers to and the index of the input. When no coin of the key has that
  pair there, the call fails with \<open>coin was not found\<close>, the error is logged and the state
  is otherwise unchanged; when one has, the call succeeds, one coin less is stored for the
  key and nothing is logged. In both cases the loop goes on with the inputs \<open>post\<close> from
  that state, the outputs are processed after them, and \<open>Add\<close> returns nil.
\<close>

theorem owned_input_removed:
  assumes nc: "\<not> is_coinbase i"
    and hd: "parseScriptsigH (in_Script i) = Inr buf"
    and tl: "parseScriptsigT buf = Inr s"
    and ck: "checkTxin env s = Inr pubkey"
    and m: "TxIn mtx = pre @ i # post"
  shows "Postfix01 s = 0x01 \<and> NewPublicKey env (Pubkey s) = Inr pubkey \<and> HasPubkey env pubkey
     \<and> txins env (TxIn mtx) st =
         txins env post
           (case remove env pubkey (in_Hash i) (in_Index i) (txins env pre st) of
              (Some err, st') \<Rightarrow> logln err st'
            | (None, st') \<Rightarrow> st')
     \<and> ((\<forall>c\<in>set (coins_of (txins env pre st) (Serialize env pubkey)).
            \<not> (TxHash c = in_Hash i \<and> TxIndex c = in_Index i))
          \<longrightarrow> remove env pubkey (in_Hash i) (in_Index i) (txins env pre st)
                = (Some ''coin was not found'', txins env pre st)
              \<and> txins env (TxIn mtx) st =
                  txins env post (logln ''coin was not found'' (txins env pre st)))
     \<and> ((\<exists>c\<in>set (coins_of (txins env pre st) (Serialize env pubkey)).
            TxHash c = in_Hash i \<and> TxIndex c = in_Index i)
          \<longrightarrow> fst (remove env pubkey (in_Hash i) (in_Index i) (txins env pre st)) = None
              \<and> txins env (TxIn mtx) st =
                  txins env post (snd (remove env pubkey (in_Hash i) (in_Index i) (txins env pre st)))
              \<and> logs (snd (remove env pubkey (in_Hash i) (in_Index i) (txins env pre st)))
                  = logs (txins env pre st)
              \<and> length (coins_of (snd (remove env pubkey (in_Hash i) (in_Index i) (txins env pre st)))
                          (Serialize env pubkey))
                  = length (coins_of (txins env pre st) (Serialize env pubkey)) - 1)
     \<and> (\<exists>st'. Add env mtx st = Inr (None, st')
          \<and> txouts env mtx 0 (TxOut mtx)
               (txins env post
                 (case remove env pubkey (in_Hash i) (in_Index i) (txins env pre st) of
                    (Some err, st') \<Rightarrow> logln err st'
                  | (None, st') \<Rightarrow> st')) = Inr st')"
proof -
  let ?s0 = "txins env pre st"
  let ?r = "remove env pubkey (in_Hash i) (in_Index i) ?s0"
  let ?s1 = "case ?r of (Some err, st') \<Rightarrow> logln err st' | (None, st') \<Rightarrow> st'"
  from ck have k: "Postfix01 s = 0x01 \<and> NewPublicKey env (Pubkey s) = Inr pubkey \<and> HasPubkey env pubkey"
    by (auto simp: checkTxin_def split: if_splits sum.splits)
  have step: "txin_step env i ?s0 = ?s1"
    by (rule txin_step_owned [OF nc hd tl ck])
  have ins: "txins env (TxIn mtx) st = txins env post ?s1"
    by (simp add: m txins_append step)
  have absent: "?r = (Some ''coin was not found'', ?s0)
      \<and> txins env (TxIn mtx) st = txins env post (logln ''coin was not found'' ?s0)"
    if a: "\<forall>c\<in>set (coins_of ?s0 (Serialize env pubkey)).
            \<not> (TxHash c = in_Hash i \<and> TxIndex c = in_Index i)"
  proof -
    have r: "?r = (Some ''coin was not found'', ?s0)"
      by (rule remove_absent_eq [OF a])
    then show ?thesis by (simp add: ins)
  qed
  have present: "fst ?r = None
      \<and> txins env (TxIn mtx) st = txins env post (snd ?r)
      \<and> logs (snd ?r) = logs ?s0
      \<and> length (coins_of (snd ?r) (Serialize env pubkey))
          = length (coins_of ?s0 (Serialize env pubkey)) - 1"
    if p: "\<exists>c\<in>set (coins_of ?s0 (Serialize env pubkey)).
            TxHash c = in_Hash i \<and> TxIndex c = in_Index i"
  proof -
    note f = remove_present_facts [OF p]
    from f have "?s1 = snd ?r"
      by (cases ?r) simp
    with f ins show ?thesis by simp
  qed
  obtain st' where st': "txouts env mtx 0 (TxOut mtx) (txins env (TxIn mtx) st) = Inr st'"
    using txouts_Inr [of 0 "TxOut mtx" mtx] by auto
  then have A: "Add env mtx st = Inr (None, st')
      \<and> txouts env mtx 0 (TxOut mtx) (txins env post ?s1) = Inr st'"
    by (simp add: Add_def ins)
  from k ins absent present A show ?thesis by blast
qed

theorem owned_input_removed_witness:
  "Add example_keys spend_tx (state_of [coin_of 0 5]) =
     Inr (None, \<lparr>coins = [own_key \<mapsto> [coin_of 0 5000]],
                 logs = [''coinbase'', ''pubkeyhash scriptsig'']\<rparr>)
   \<and> Add example_keys spend_tx (state_of [coin_of 1 6]) =
     Inr (None, \<lparr>coins = [own_key \<mapsto> [coin_of 1 6, coin_of 0 5000]],
                 logs = [''coinbase'', ''coin was not found'', ''pubkeyhash scriptsig'']\<rparr>)"
proof -
  note t = owned_input_removed [OF not_coinbase_spend parseScriptsigH_spend parseScriptsigT_spend
      checkTxin_spend spend_tx_fields(1)]
  have l0: "0 < length (TxOut spend_tx)"
    by (simp add: spend_tx_fields(2))
  have out: "txout_step example_keys spend_tx 0 p2pkh_out s =
      Inr (s\<lparr>coins := (coins s)(own_key \<mapsto> coins_of s own_key @ [coin_of 0 5000]),
             logs := logs s @ [''pubkeyhash scriptsig'']\<rparr>)" for s
    using txout_step_p2pkh_example [OF l0, of s]
    by (simp add: spend_tx_fields(2) coin_of_def out_Value_p2pkh)
  from t [of "state_of [coin_of 0 5]"] obtain st1 where
    a1: "Add example_keys spend_tx (state_of [coin_of 0 5]) = Inr (None, st1)"
    and o1: "txouts example_keys spend_tx 0 (TxOut spend_tx)
       (txins example_keys []
         (case remove example_keys own_key (in_Hash spend_in) (in_Index spend_in)
                 (txins example_keys [coinbase_in] (state_of [coin_of 0 5])) of
            (Some err, st') \<Rightarrow> logln err st'
          | (None, st') \<Rightarrow> st')) = Inr st1"
    by blast
  from o1 have "st1 = \<lparr>coins = [own_key \<mapsto> [coin_of 0 5000]],
                 logs = [''coinbase'', ''pubkeyhash scriptsig'']\<rparr>"
    by (simp add: spend_tx_fields(2) txins_coinbase_example spend_in_fields
        remove_example_present out coins_of_def)
  with a1 have 1: "Add example_keys spend_tx (state_of [coin_of 0 5]) =
     Inr (None, \<lparr>coins = [own_key \<mapsto> [coin_of 0 5000]],
                 logs = [''coinbase'', ''pubkeyhash scriptsig'']\<rparr>)"
    by simp
  from t [of "state_of [coin_of 1 6]"] obtain st2 where
    a2: "Add example_keys spend_tx (state_of [coin_of 1 6]) = Inr (None, st2)"
    and o2: "txouts example_keys spend_tx 0 (TxOut spend_tx)
       (txins example_keys []
         (case remove example_keys own_key (in_Hash spend_in) (in_Index spend_in)
                 (txins example_keys [coinbase_in] (state_of [coin_of 1 6])) of
            (Some err, st') \<Rightarrow> logln err st'
          | (None, st') \<Rightarrow> st')) = Inr st2"
    by blast
  from o2 have "st2 = \<lparr>coins = [own_key \<mapsto> [coin_of 1 6, coin_of 0 5000]],
                 logs = [''coinbase'', ''coin was not found'', ''pubkeyhash scriptsig'']\<rparr>"
    by (simp add: spend_tx_fields(2) txins_coinbase_example spend_in_fields
        remove_example_absent out coins_of_def)
       (simp add: logln_def state_of_def)
  with a2 have 2: "Add example_keys spend_tx (state_of [coin_of 1 6]) =
     Inr (None, \<lparr>coins = [own_key \<mapsto> [coin_of 1 6, coin_of 0 5000]],
                 logs = [''coinbase'', ''coin was not found'', ''pubkeyhash scriptsig'']\<rparr>)"
    by simp
  from 1 2 show ?thesis by simp
qed

subsection \<open>A pay-to-public-key-hash output of the wallet\<close>

text \<open>
  Claim C5. Let the output at position \<open>i\<close> of a transaction have the script
  \<open>[0x76, 0xA9, 0x14] @ h @ [0x88, 0xAC]\<close> with \<open>h\<close> of 20 bytes, let \<open>h\<close> look up to
  the key \<open>pk\<close> of the wallet, and let \<open>V\<close> be the value of the output. Then \<open>Add\<close>
  returns nil and, to the list that the address of \<open>pk\<close> has after the inputs, it has
  appended coins of which exactly one has the index \<open>i\<close>: the coin with that address, the
  hash of the transaction, index \<open>i\<close>, value \<open>V\<close> and type tag 0. No coin with index \<open>i\<close>
  is appended at any other address. The positions of the outputs are taken to fit the
  32-bit index of a coin (at most \<open>2 ^ 32\<close> outputs).
\<close>

theorem p2pkh_output_adds_coin:
  assumes i: "i < length (TxOut mtx)" and n: "length (TxOut mtx) \<le> 2 ^ 32"
    and sc: "out_Script (TxOut mtx ! i) = [0x76, 0xA9, 0x14] @ h @ [0x88, 0xAC]"
    and h: "length h = 20"
    and pk: "HasPubHash env h = Some pk"
    and v: "out_Value (TxOut mtx ! i) = V"
  shows "\<exists>st'. Add env mtx st = Inr (None, st')
     \<and> (\<exists>pre post.
           coins_of st' (Serialize env pk) =
             coins_of (txins env (TxIn mtx) st) (Serialize env pk) @ pre @
             [\<lparr>Addr = Serialize env pk, TxHash = TxHashOf env mtx, TxIndex = of_nat i,
               Value = V, Ttype = 0\<rparr>] @ post
           \<and> (\<forall>c\<in>set (pre @ post). TxIndex c \<noteq> of_nat i))
     \<and> (\<forall>b. b \<noteq> Serialize env pk \<longrightarrow>
           (\<exists>new. coins_of st' b = coins_of (txins env (TxIn mtx) st) b @ new
              \<and> (\<forall>c\<in>set new. TxIndex c \<noteq> of_nat i)))"
proof -
  let ?outs = "TxOut mtx"
  let ?mid = "txins env (TxIn mtx) st"
  let ?a = "Serialize env pk"
  let ?c = "\<lparr>Addr = ?a, TxHash = TxHashOf env mtx, TxIndex = of_nat i, Value = V, Ttype = 0\<rparr>"
  have split: "?outs = take i ?outs @ (?outs ! i) # drop (Suc i) ?outs"
    using i by (simp add: id_take_nth_drop)
  have li: "length (take i ?outs) = i" using i by simp
  obtain s1 where s1: "txouts env mtx 0 (take i ?outs) ?mid = Inr s1"
    using txouts_Inr [of 0 "take i ?outs" mtx env ?mid] by auto
  obtain s2 where s2: "txout_step env mtx i (?outs ! i) s1 = Inr s2"
    using txout_step_Inr [OF i] by blast
  have "Suc i + length (drop (Suc i) ?outs) \<le> length ?outs"
    using i by simp
  from txouts_Inr [OF this]
  obtain s3 where s3: "txouts env mtx (Suc i) (drop (Suc i) ?outs) s2 = Inr s3"
    by blast
  have "txouts env mtx 0 ?outs ?mid = txouts env mtx 0 (take i ?outs @ (?outs ! i) # drop (Suc i) ?outs) ?mid"
    using split by simp
  also have "\<dots> = Inr s3"
    using s1 s2 s3 li by (simp add: txouts_append)
  finally have A: "Add env mtx st = Inr (None, s3)"
    by (simp add: Add_def)
  have i32: "i < 2 ^ 32" using i n by simp
  then have ui: "unat (of_nat i :: 32 word) = i"
    by (simp add: unat_of_nat)
  have "add env pk mtx (of_nat i) 0 (logged [''pubkeyhash scriptsig''] s1) = Inr s2"
    using s2 txout_check_p2pkh [OF sc h pk, of mtx] by (simp add: txout_step_eq)
  note step = add_coins_of [OF this]
  have first: "\<exists>new. coins_of s1 b = coins_of ?mid b @ new \<and> (\<forall>c\<in>set new. TxIndex c \<noteq> of_nat i)" for b
  proof -
    from txouts_new [OF s1, of b] obtain new where
      new: "coins_of s1 b = coins_of ?mid b @ new"
        "\<forall>c\<in>set new. \<exists>j. 0 \<le> j \<and> j < 0 + length (take i ?outs) \<and> TxIndex c = of_nat j"
      by blast
    have "TxIndex c \<noteq> of_nat i" if "c \<in> set new" for c
    proof -
      from new(2) that li obtain j where j: "j < i" "TxIndex c = of_nat j" by auto
      with i32 have "j < 2 ^ 32" by simp
      with uint32_inj [OF this i32] j show ?thesis by auto
    qed
    with new(1) show ?thesis by blast
  qed
  have last: "\<exists>new. coins_of s3 b = coins_of s2 b @ new \<and> (\<forall>c\<in>set new. TxIndex c \<noteq> of_nat i)" for b
  proof -
    from txouts_new [OF s3, of b] obtain new where
      new: "coins_of s3 b = coins_of s2 b @ new"
        "\<forall>c\<in>set new. \<exists>j. Suc i \<le> j \<and> j < Suc i + length (drop (Suc i) ?outs) \<and> TxIndex c = of_nat j"
      by blast
    have "TxIndex c \<noteq> of_nat i" if "c \<in> set new" for c
    proof -
      from new(2) that obtain j where j: "Suc i \<le> j" "j < Suc i + length (drop (Suc i) ?outs)"
        "TxIndex c = of_nat j" by blast
      from j(2) i n have "j < 2 ^ 32" by simp
      with uint32_inj [OF this i32] j show ?thesis by auto
    qed
    with new(1) show ?thesis by blast
  qed
  have own: "\<exists>pre post. coins_of s3 ?a = coins_of ?mid ?a @ pre @ [?c] @ post
       \<and> (\<forall>c\<in>set (pre @ post). TxIndex c \<noteq> of_nat i)"
  proof -
    from first [of ?a] obtain pre where
      pre: "coins_of s1 ?a = coins_of ?mid ?a @ pre" "\<forall>c\<in>set pre. TxIndex c \<noteq> of_nat i"
      by blast
    from last [of ?a] obtain post where
      post: "coins_of s3 ?a = coins_of s2 ?a @ post" "\<forall>c\<in>set post. TxIndex c \<noteq> of_nat i"
      by blast
    have "coins_of s2 ?a = coins_of s1 ?a @ [?c]"
      using step [of ?a] ui v by simp
    with pre(1) post(1) have "coins_of s3 ?a = coins_of ?mid ?a @ pre @ [?c] @ post"
      by simp
    moreover have "\<forall>c\<in>set (pre @ post). TxIndex c \<noteq> of_nat i"
      using pre(2) post(2) by auto
    ultimately show ?thesis by blast
  qed
  have other: "\<exists>new. coins_of s3 b = coins_of ?mid b @ new \<and> (\<forall>c\<in>set new. TxIndex c \<noteq> of_nat i)"
    if b: "b \<noteq> ?a" for b
  proof -
    from first [of b] obtain n1 where
      n1: "coins_of s1 b = coins_of ?mid b @ n1" "\<forall>c\<in>set n1. TxIndex c \<noteq> of_nat i"
      by blast
    from last [of b] obtain n2 where
      n2: "coins_of s3 b = coins_of s2 b @ n2" "\<forall>c\<in>set n2. TxIndex c \<noteq> of_nat i"
      by blast
    have "coins_of s2 b = coins_of s1 b"
      using step [of b] b by simp
    with n1(1) n2(1) have "coins_of s3 b = coins_of ?mid b @ (n1 @ n2)"
      by simp
    moreover have "\<forall>c\<in>set (n1 @ n2). TxIndex c \<noteq> of_nat i"
      using n1(2) n2(2) by auto
    ultimately show ?thesis by blast
  qed
  from A own other show ?thesis by blast
qed

theorem p2pkh_output_adds_coin_witness:
  "\<exists>st' pre post. Add example_keys example_tx (state_of []) = Inr (None, st')
     \<and> coins_of st' own_key = pre @ [coin_of 0 5000] @ post"
proof -
  have i: "0 < length (TxOut example_tx)" and n: "length (TxOut example_tx) \<le> 2 ^ 32"
    and sc: "out_Script (TxOut example_tx ! 0) = [0x76, 0xA9, 0x14] @ own_hash @ [0x88, 0xAC]"
    and v: "out_Value (TxOut example_tx ! 0) = 5000"
    by (simp_all add: example_tx_def)
  from p2pkh_output_adds_coin [OF i n sc length_own_hash HasPubHash_example v, of "state_of []"]
  obtain st' pre post where
    "Add example_keys example_tx (state_of []) = Inr (None, st')"
    "coins_of st' (Serialize example_keys own_key) =
       coins_of (txins example_keys (TxIn example_tx) (state_of [])) (Serialize example_keys own_key)
       @ pre @ [\<lparr>Addr = Serialize example_keys own_key, TxHash = TxHashOf example_keys example_tx,
                 TxIndex = of_nat 0, Value = 5000, Ttype = 0\<rparr>] @ post"
    by blast
  then have "Add example_keys example_tx (state_of []) = Inr (None, st')
     \<and> coins_of st' own_key = pre @ [coin_of 0 5000] @ post"
    by (simp add: Serialize_example TxHashOf_example example_tx_out coins_of_state_of coin_of_def)
  then show ?thesis by blast
qed

subsection \<open>The order of the output templates\<close>

lemma add_logs: "add env pk mtx idx ty st = Inr st' \<Longrightarrow> logs st' = logs st"
  by (auto simp: add_def Let_def split: if_splits)

lemma txout_step_logs:
  assumes "txout_step env mtx k out st = Inr st'"
  shows "\<exists>more. logs st' = logs st @ more"
proof -
  obtain ms r where c: "txout_check env mtx out = (ms, r)"
    by (cases "txout_check env mtx out")
  show ?thesis
  proof (cases r)
    case None
    with c assms have "st' = logged ms st" by (simp add: txout_step_eq)
    then show ?thesis by (simp add: logged_def)
  next
    case (Some q)
    obtain pk ty where q: "q = (pk, ty)" by (cases q)
    from c Some q assms have "add env pk mtx (of_nat k) ty (logged ms st) = Inr st'"
      by (simp add: txout_step_eq)
    from add_logs [OF this] show ?thesis by (simp add: logged_def)
  qed
qed

lemma txouts_logs:
  "txouts env mtx k outs st = Inr st' \<Longrightarrow> \<exists>more. logs st' = logs st @ more"
proof (induction outs arbitrary: k st)
  case Nil
  then show ?case by simp
next
  case (Cons out outs)
  from Cons.prems obtain s where s: "txout_step env mtx k out st = Inr s"
    and r: "txouts env mtx (Suc k) outs s = Inr st'"
    by (auto split: sum.splits)
  from txout_step_logs [OF s] obtain m1 where m1: "logs s = logs st @ m1" by blast
  from Cons.IH [OF r] obtain m2 where m2: "logs st' = logs s @ m2" by blast
  from m1 m2 have "logs st' = logs st @ (m1 @ m2)" by simp
  then show ?case by blast
qed

lemma Add_at_output:
  assumes i: "i < length (TxOut mtx)"
    and s1: "txouts env mtx 0 (take i (TxOut mtx)) (txins env (TxIn mtx) st) = Inr s1"
    and s2: "txout_step env mtx i (TxOut mtx ! i) s1 = Inr s2"
  shows "\<exists>st' more. Add env mtx st = Inr (None, st')
     \<and> txouts env mtx (Suc i) (drop (Suc i) (TxOut mtx)) s2 = Inr st'
     \<and> logs st' = logs s2 @ more
     \<and> (\<forall>b. \<exists>new. coins_of st' b = coins_of s2 b @ new
          \<and> (\<forall>c\<in>set new. \<exists>j. Suc i \<le> j \<and> j < length (TxOut mtx) \<and> TxIndex c = of_nat j))"
proof -
  let ?outs = "TxOut mtx"
  let ?mid = "txins env (TxIn mtx) st"
  have split: "?outs = take i ?outs @ (?outs ! i) # drop (Suc i) ?outs"
    using i by (simp add: id_take_nth_drop)
  have li: "length (take i ?outs) = i" using i by simp
  have len: "Suc i + length (drop (Suc i) ?outs) = length ?outs"
    using i by simp
  then have "Suc i + length (drop (Suc i) ?outs) \<le> length ?outs" by simp
  from txouts_Inr [OF this]
  obtain s3 where s3: "txouts env mtx (Suc i) (drop (Suc i) ?outs) s2 = Inr s3"
    by blast
  have "txouts env mtx 0 ?outs ?mid =
      txouts env mtx 0 (take i ?outs @ (?outs ! i) # drop (Suc i) ?outs) ?mid"
    using split by simp
  also have "\<dots> = Inr s3"
    using s1 s2 s3 li by (simp add: txouts_append)
  finally have A: "Add env mtx st = Inr (None, s3)"
    by (simp add: Add_def)
  from txouts_logs [OF s3] obtain more where more: "logs s3 = logs s2 @ more" by blast
  have "\<exists>new. coins_of s3 b = coins_of s2 b @ new
          \<and> (\<forall>c\<in>set new. \<exists>j. Suc i \<le> j \<and> j < length ?outs \<and> TxIndex c = of_nat j)" for b
  proof -
    from txouts_new [OF s3, of b] obtain new where
      n: "coins_of s3 b = coins_of s2 b @ new"
        "\<forall>c\<in>set new. \<exists>j. Suc i \<le> j \<and> j < Suc i + length (drop (Suc i) ?outs)
            \<and> TxIndex c = of_nat j"
      by blast
    from n(2) have "\<forall>c\<in>set new. \<exists>j. Suc i \<le> j \<and> j < length ?outs \<and> TxIndex c = of_nat j"
      unfolding len .
    with n(1) show ?thesis by blast
  qed
  with A s3 more show ?thesis by blast
qed

lemma txout_step_cases:
  "(\<forall>s pubkey. parse env Unpack_Script (out_Script out) = Inr s \<and> checkTxout env s = Inr pubkey
        \<and> i < length (TxOut mtx) \<longrightarrow>
      txout_step env mtx i out st =
        Inr (st\<lparr>coins := (coins st)(Serialize env pubkey \<mapsto>
                  coins_of st (Serialize env pubkey) @
                  [\<lparr>Addr = Serialize env pubkey, TxHash = TxHashOf env mtx, TxIndex = of_nat i,
                    Value = out_Value (TxOut mtx ! unat (of_nat i :: 32 word)), Ttype = 0\<rparr>]),
                logs := logs st @ [''pubkeyhash scriptsig'']\<rparr>))
   \<and> (\<forall>s err3. parse env Unpack_Script (out_Script out) = Inr s \<and> checkTxout env s = Inl err3 \<longrightarrow>
      txout_step env mtx i out st =
        Inr (st\<lparr>logs := logs st @ [''pubkeyhash scriptsig'',
                   err3 @ '' '' @ EncodeToString env (TxHashOf env mtx)]\<rparr>))
   \<and> (\<forall>e s2 pubkey. parse env Unpack_Script (out_Script out) = Inl e
        \<and> parse env Unpack_Script2 (out_Script out) = Inr s2 \<and> checkTxout2 env s2 = Inr pubkey
        \<and> i < length (TxOut mtx) \<longrightarrow>
      txout_step env mtx i out st =
        Inr (st\<lparr>coins := (coins st)(Serialize env pubkey \<mapsto>
                  coins_of st (Serialize env pubkey) @
                  [\<lparr>Addr = Serialize env pubkey, TxHash = TxHashOf env mtx, TxIndex = of_nat i,
                    Value = out_Value (TxOut mtx ! unat (of_nat i :: 32 word)), Ttype = 1\<rparr>]),
                logs := logs st @ [''pubkey scriptsig'']\<rparr>))
   \<and> (\<forall>e s2 err3. parse env Unpack_Script (out_Script out) = Inl e
        \<and> parse env Unpack_Script2 (out_Script out) = Inr s2 \<and> checkTxout2 env s2 = Inl err3 \<longrightarrow>
      txout_step env mtx i out st =
        Inr (st\<lparr>logs := logs st @ [''pubkey scriptsig'',
                   err3 @ '' '' @ EncodeToString env (TxHashOf env mtx)]\<rparr>))
   \<and> (\<forall>e e2. parse env Unpack_Script (out_Script out) = Inl e
        \<and> parse env Unpack_Script2 (out_Script out) = Inl e2 \<longrightarrow>
      txout_step env mtx i out st =
        Inr (st\<lparr>logs := logs st @ [e @ '' '' @ e2,
                   ''This txout is not supproted '' @ EncodeToString env (TxHashOf env mtx)]\<rparr>))"
proof -
  have u: "unat (of_nat i :: 32 word) < length (TxOut mtx)" if "i < length (TxOut mtx)"
    using that unat_uint32_le [of i] by simp
  show ?thesis
    by (intro conjI allI impI)
       (simp_all add: txout_step_def Let_def logln_def add_def u coins_of_def)
qed

lemma txout_step_junk_example:
  "txout_step example_keys mtx i junk_out st =
     Inr (st\<lparr>logs := logs st @
        [''this tx is not supported(unknown format) EOF this tx is not supported(unknown format) EOF'',
         ''This txout is not supproted hex'']\<rparr>)"
  by (simp add: txout_step_def parse_junk Let_def logln_def EncodeToString_example)

text \<open>
  Claim C9. Let \<open>i\<close> be the position of an output of the transaction and \<open>s1\<close> the state
  in which the second loop of \<open>Add\<close> reaches it. The loop decides by the
  pay-to-public-key-hash template first: when it parses, the line \<open>pubkeyhash scriptsig\<close>
  is logged, and either \<open>checkTxout\<close> gives a key and the coin appended for this output
  has the type tag 0, or it gives an error, which is logged, and no coin is appended for
  this output; what the other template says plays no part. The pay-to-public-key template
  decides only when the first fails: then the line is \<open>pubkey scriptsig\<close> and the coin
  appended has the type tag 1. When both fail, the output is skipped: the two error
  messages are logged in one line, followed by the line \<open>This txout is not supproted\<close>
  with the hash of the transaction, and no coin is appended for it. In every case the loop
  goes on with the later outputs from the state so changed, \<open>Add\<close> returns nil, and the
  coin and the lines are in the registry and the log that it returns.
\<close>

theorem output_template_priority:
  assumes i: "i < length (TxOut mtx)"
  shows "\<exists>s1. txouts env mtx 0 (take i (TxOut mtx)) (txins env (TxIn mtx) st) = Inr s1
   \<and> (\<forall>s pubkey. parse env Unpack_Script (out_Script (TxOut mtx ! i)) = Inr s
        \<and> checkTxout env s = Inr pubkey \<longrightarrow>
      (\<exists>st' later more. Add env mtx st = Inr (None, st')
         \<and> txouts env mtx (Suc i) (drop (Suc i) (TxOut mtx))
              (s1\<lparr>coins := (coins s1)(Serialize env pubkey \<mapsto>
                     coins_of s1 (Serialize env pubkey) @
                     [\<lparr>Addr = Serialize env pubkey, TxHash = TxHashOf env mtx, TxIndex = of_nat i,
                       Value = out_Value (TxOut mtx ! unat (of_nat i :: 32 word)), Ttype = 0\<rparr>]),
                   logs := logs s1 @ [''pubkeyhash scriptsig'']\<rparr>) = Inr st'
         \<and> coins_of st' (Serialize env pubkey) =
              coins_of s1 (Serialize env pubkey) @
              [\<lparr>Addr = Serialize env pubkey, TxHash = TxHashOf env mtx, TxIndex = of_nat i,
                Value = out_Value (TxOut mtx ! unat (of_nat i :: 32 word)), Ttype = 0\<rparr>] @ later
         \<and> logs st' = logs s1 @ [''pubkeyhash scriptsig''] @ more))
   \<and> (\<forall>s err3. parse env Unpack_Script (out_Script (TxOut mtx ! i)) = Inr s
        \<and> checkTxout env s = Inl err3 \<longrightarrow>
      (\<exists>st' more. Add env mtx st = Inr (None, st')
         \<and> txouts env mtx (Suc i) (drop (Suc i) (TxOut mtx))
              (s1\<lparr>logs := logs s1 @ [''pubkeyhash scriptsig'',
                     err3 @ '' '' @ EncodeToString env (TxHashOf env mtx)]\<rparr>) = Inr st'
         \<and> logs st' = logs s1 @ [''pubkeyhash scriptsig'',
                     err3 @ '' '' @ EncodeToString env (TxHashOf env mtx)] @ more
         \<and> (\<forall>b. \<exists>new. coins_of st' b = coins_of s1 b @ new
              \<and> (\<forall>c\<in>set new. \<exists>j. Suc i \<le> j \<and> j < length (TxOut mtx) \<and> TxIndex c = of_nat j))))
   \<and> (\<forall>e s2 pubkey. parse env Unpack_Script (out_Script (TxOut mtx ! i)) = Inl e
        \<and> parse env Unpack_Script2 (out_Script (TxOut mtx ! i)) = Inr s2
        \<and> checkTxout2 env s2 = Inr pubkey \<longrightarrow>
      (\<exists>st' later more. Add env mtx st = Inr (None, st')
         \<and> txouts env mtx (Suc i) (drop (Suc i) (TxOut mtx))
              (s1\<lparr>coins := (coins s1)(Serialize env pubkey \<mapsto>
                     coins_of s1 (Serialize env pubkey) @
                     [\<lparr>Addr = Serialize env pubkey, TxHash = TxHashOf env mtx, TxIndex = of_nat i,
                       Value = out_Value (TxOut mtx ! unat (of_nat i :: 32 word)), Ttype = 1\<rparr>]),
                   logs := logs s1 @ [''pubkey scriptsig'']\<rparr>) = Inr st'
         \<and> coins_of st' (Serialize env pubkey) =
              coins_of s1 (Serialize env pubkey) @
              [\<lparr>Addr = Serialize env pubkey, TxHash = TxHashOf env mtx, TxIndex = of_nat i,
                Value = out_Value (TxOut mtx ! unat (of_nat i :: 32 word)), Ttype = 1\<rparr>] @ later
         \<and> logs st' = logs s1 @ [''pubkey scriptsig''] @ more))
   \<and> (\<forall>e s2 err3. parse env Unpack_Script (out_Script (TxOut mtx ! i)) = Inl e
        \<and> parse env Unpack_Script2 (out_Script (TxOut mtx ! i)) = Inr s2
        \<and> checkTxout2 env s2 = Inl err3 \<longrightarrow>
      (\<exists>st' more. Add env mtx st = Inr (None, st')
         \<and> txouts env mtx (Suc i) (drop (Suc i) (TxOut mtx))
              (s1\<lparr>logs := logs s1 @ [''pubkey scriptsig'',
                     err3 @ '' '' @ EncodeToString env (TxHashOf env mtx)]\<rparr>) = Inr st'
         \<and> logs st' = logs s1 @ [''pubkey scriptsig'',
                     err3 @ '' '' @ EncodeToString env (TxHashOf env mtx)] @ more
         \<and> (\<forall>b. \<exists>new. coins_of st' b = coins_of s1 b @ new
              \<and> (\<forall>c\<in>set new. \<exists>j. Suc i \<le> j \<and> j < length (TxOut mtx) \<and> TxIndex c = of_nat j))))
   \<and> (\<forall>e e2. parse env Unpack_Script (out_Script (TxOut mtx ! i)) = Inl e
        \<and> parse env Unpack_Script2 (out_Script (TxOut mtx ! i)) = Inl e2 \<longrightarrow>
      (\<exists>st' more. Add env mtx st = Inr (None, st')
         \<and> txouts env mtx (Suc i) (drop (Suc i) (TxOut mtx))
              (s1\<lparr>logs := logs s1 @ [e @ '' '' @ e2,
                     ''This txout is not supproted '' @ EncodeToString env (TxHashOf env mtx)]\<rparr>) = Inr st'
         \<and> logs st' = logs s1 @ [e @ '' '' @ e2,
                     ''This txout is not supproted '' @ EncodeToString env (TxHashOf env mtx)] @ more
         \<and> (\<forall>b. \<exists>new. coins_of st' b = coins_of s1 b @ new
              \<and> (\<forall>c\<in>set new. \<exists>j. Suc i \<le> j \<and> j < length (TxOut mtx) \<and> TxIndex c = of_nat j))))"
proof -
  let ?out = "TxOut mtx ! i"
  let ?hex = "EncodeToString env (TxHashOf env mtx)"
  obtain s1 where s1: "txouts env mtx 0 (take i (TxOut mtx)) (txins env (TxIn mtx) st) = Inr s1"
    using txouts_Inr [of 0 "take i (TxOut mtx)" mtx env "txins env (TxIn mtx) st"] by auto
  note cases = txout_step_cases [of env ?out i mtx s1]
  note at = Add_at_output [OF i s1]
  let ?coin = "\<lambda>pubkey t. \<lparr>Addr = Serialize env pubkey, TxHash = TxHashOf env mtx,
      TxIndex = of_nat i, Value = out_Value (TxOut mtx ! unat (of_nat i :: 32 word)), Ttype = t\<rparr>"
  have added: "\<exists>st' later more. Add env mtx st = Inr (None, st')
         \<and> txouts env mtx (Suc i) (drop (Suc i) (TxOut mtx))
              (s1\<lparr>coins := (coins s1)(Serialize env pubkey \<mapsto>
                     coins_of s1 (Serialize env pubkey) @ [?coin pubkey t]),
                   logs := logs s1 @ [l]\<rparr>) = Inr st'
         \<and> coins_of st' (Serialize env pubkey) =
              coins_of s1 (Serialize env pubkey) @ [?coin pubkey t] @ later
         \<and> logs st' = logs s1 @ [l] @ more"
    if step: "txout_step env mtx i ?out s1 =
        Inr (s1\<lparr>coins := (coins s1)(Serialize env pubkey \<mapsto>
                     coins_of s1 (Serialize env pubkey) @ [?coin pubkey t]),
                   logs := logs s1 @ [l]\<rparr>)" for pubkey t l
  proof -
    let ?s2 = "s1\<lparr>coins := (coins s1)(Serialize env pubkey \<mapsto>
                     coins_of s1 (Serialize env pubkey) @ [?coin pubkey t]),
                   logs := logs s1 @ [l]\<rparr>"
    from at [OF step] obtain st' more where
      a: "Add env mtx st = Inr (None, st')"
        "txouts env mtx (Suc i) (drop (Suc i) (TxOut mtx)) ?s2 = Inr st'"
        "logs st' = logs ?s2 @ more"
      and c: "\<forall>b. \<exists>new. coins_of st' b = coins_of ?s2 b @ new
          \<and> (\<forall>c\<in>set new. \<exists>j. Suc i \<le> j \<and> j < length (TxOut mtx) \<and> TxIndex c = of_nat j)"
      by blast
    from c obtain later where "coins_of st' (Serialize env pubkey) = coins_of ?s2 (Serialize env pubkey) @ later"
      by blast
    moreover have "coins_of ?s2 (Serialize env pubkey) = coins_of s1 (Serialize env pubkey) @ [?coin pubkey t]"
      by (simp add: coins_of_def)
    ultimately have "coins_of st' (Serialize env pubkey) =
        coins_of s1 (Serialize env pubkey) @ [?coin pubkey t] @ later"
      by simp
    moreover from a(3) have "logs st' = logs s1 @ [l] @ more" by simp
    ultimately show ?thesis using a(1,2) by blast
  qed
  have skipped: "\<exists>st' more. Add env mtx st = Inr (None, st')
         \<and> txouts env mtx (Suc i) (drop (Suc i) (TxOut mtx)) (s1\<lparr>logs := logs s1 @ ls\<rparr>) = Inr st'
         \<and> logs st' = logs s1 @ ls @ more
         \<and> (\<forall>b. \<exists>new. coins_of st' b = coins_of s1 b @ new
              \<and> (\<forall>c\<in>set new. \<exists>j. Suc i \<le> j \<and> j < length (TxOut mtx) \<and> TxIndex c = of_nat j))"
    if step: "txout_step env mtx i ?out s1 = Inr (s1\<lparr>logs := logs s1 @ ls\<rparr>)" for ls
  proof -
    let ?s2 = "s1\<lparr>logs := logs s1 @ ls\<rparr>"
    from at [OF step] obtain st' more where
      a: "Add env mtx st = Inr (None, st')"
        "txouts env mtx (Suc i) (drop (Suc i) (TxOut mtx)) ?s2 = Inr st'"
        "logs st' = logs ?s2 @ more"
      and c: "\<forall>b. \<exists>new. coins_of st' b = coins_of ?s2 b @ new
          \<and> (\<forall>c\<in>set new. \<exists>j. Suc i \<le> j \<and> j < length (TxOut mtx) \<and> TxIndex c = of_nat j)"
      by blast
    have "coins_of ?s2 b = coins_of s1 b" for b
      by (simp add: coins_of_def)
    with c have "\<forall>b. \<exists>new. coins_of st' b = coins_of s1 b @ new
          \<and> (\<forall>c\<in>set new. \<exists>j. Suc i \<le> j \<and> j < length (TxOut mtx) \<and> TxIndex c = of_nat j)"
      by simp
    moreover from a(3) have "logs st' = logs s1 @ ls @ more" by simp
    ultimately show ?thesis using a(1,2) by blast
  qed
  have A: "\<exists>st' later more. Add env mtx st = Inr (None, st')
         \<and> txouts env mtx (Suc i) (drop (Suc i) (TxOut mtx))
              (s1\<lparr>coins := (coins s1)(Serialize env pubkey \<mapsto>
                     coins_of s1 (Serialize env pubkey) @ [?coin pubkey 0]),
                   logs := logs s1 @ [''pubkeyhash scriptsig'']\<rparr>) = Inr st'
         \<and> coins_of st' (Serialize env pubkey) =
              coins_of s1 (Serialize env pubkey) @ [?coin pubkey 0] @ later
         \<and> logs st' = logs s1 @ [''pubkeyhash scriptsig''] @ more"
    if "parse env Unpack_Script (out_Script ?out) = Inr s \<and> checkTxout env s = Inr pubkey"
    for s pubkey
    using cases that i by (intro added) blast
  have B: "\<exists>st' more. Add env mtx st = Inr (None, st')
         \<and> txouts env mtx (Suc i) (drop (Suc i) (TxOut mtx))
              (s1\<lparr>logs := logs s1 @ [''pubkeyhash scriptsig'', err3 @ '' '' @ ?hex]\<rparr>) = Inr st'
         \<and> logs st' = logs s1 @ [''pubkeyhash scriptsig'', err3 @ '' '' @ ?hex] @ more
         \<and> (\<forall>b. \<exists>new. coins_of st' b = coins_of s1 b @ new
              \<and> (\<forall>c\<in>set new. \<exists>j. Suc i \<le> j \<and> j < length (TxOut mtx) \<and> TxIndex c = of_nat j))"
    if "parse env Unpack_Script (out_Script ?out) = Inr s \<and> checkTxout env s = Inl err3"
    for s err3
    using cases that by (intro skipped) blast
  have C: "\<exists>st' later more. Add env mtx st = Inr (None, st')
         \<and> txouts env mtx (Suc i) (drop (Suc i) (TxOut mtx))
              (s1\<lparr>coins := (coins s1)(Serialize env pubkey \<mapsto>
                     coins_of s1 (Serialize env pubkey) @ [?coin pubkey 1]),
                   logs := logs s1 @ [''pubkey scriptsig'']\<rparr>) = Inr st'
         \<and> coins_of st' (Serialize env pubkey) =
              coins_of s1 (Serialize env pubkey) @ [?coin pubkey 1] @ later
         \<and> logs st' = logs s1 @ [''pubkey scriptsig''] @ more"
    if "parse env Unpack_Script (out_Script ?out) = Inl e
        \<and> parse env Unpack_Script2 (out_Script ?out) = Inr s2 \<and> checkTxout2 env s2 = Inr pubkey"
    for e s2 pubkey
    using cases that i by (intro added) blast
  have D: "\<exists>st' more. Add env mtx st = Inr (None, st')
         \<and> txouts env mtx (Suc i) (drop (Suc i) (TxOut mtx))
              (s1\<lparr>logs := logs s1 @ [''pubkey scriptsig'', err3 @ '' '' @ ?hex]\<rparr>) = Inr st'
         \<and> logs st' = logs s1 @ [''pubkey scriptsig'', err3 @ '' '' @ ?hex] @ more
         \<and> (\<forall>b. \<exists>new. coins_of st' b = coins_of s1 b @ new
              \<and> (\<forall>c\<in>set new. \<exists>j. Suc i \<le> j \<and> j < length (TxOut mtx) \<and> TxIndex c = of_nat j))"
    if "parse env Unpack_Script (out_Script ?out) = Inl e
        \<and> parse env Unpack_Script2 (out_Script ?out) = Inr s2 \<and> checkTxout2 env s2 = Inl err3"
    for e s2 err3
    using cases that by (intro skipped) blast
  have E: "\<exists>st' more. Add env mtx st = Inr (None, st')
         \<and> txouts env mtx (Suc i) (drop (Suc i) (TxOut mtx))
              (s1\<lparr>logs := logs s1 @ [e @ '' '' @ e2, ''This txout is not supproted '' @ ?hex]\<rparr>) = Inr st'
         \<and> logs st' = logs s1 @ [e @ '' '' @ e2, ''This txout is not supproted '' @ ?hex] @ more
         \<and> (\<forall>b. \<exists>new. coins_of st' b = coins_of s1 b @ new
              \<and> (\<forall>c\<in>set new. \<exists>j. Suc i \<le> j \<and> j < length (TxOut mtx) \<and> TxIndex c = of_nat j))"
    if "parse env Unpack_Script (out_Script ?out) = Inl e
        \<and> parse env Unpack_Script2 (out_Script ?out) = Inl e2"
    for e e2
    using cases that by (intro skipped) blast
  show ?thesis
    apply (rule exI [of _ s1])
    apply (intro conjI allI impI)
         apply (rule s1)
        apply (erule A)
       apply (erule B)
      apply (erule C)
     apply (erule D)
    apply (erule E)
    done
qed

theorem output_template_priority_witness:
  "Add example_keys three_tx (state_of []) =
     Inr (None,
       \<lparr>coins = [own_key \<mapsto>
          [\<lparr>Addr = own_key, TxHash = replicate 32 0xAB, TxIndex = 0, Value = 5000, Ttype = 0\<rparr>,
           \<lparr>Addr = own_key, TxHash = replicate 32 0xAB, TxIndex = 1, Value = 7000, Ttype = 1\<rparr>]],
        logs = [''pubkeyhash scriptsig'', ''pubkey scriptsig'',
          ''this tx is not supported(unknown format) EOF this tx is not supported(unknown format) EOF'',
          ''This txout is not supproted hex'']\<rparr>)"
proof -
  have l1: "1 < length (TxOut three_tx)"
    by (simp add: three_tx_outs)
  have nth: "TxOut three_tx ! 1 = p2pk_out"
    by (simp add: three_tx_outs)
  from output_template_priority [OF l1, of example_keys "state_of []"]
  obtain s1 where
    s1: "txouts example_keys three_tx 0 (take 1 (TxOut three_tx))
           (txins example_keys (TxIn three_tx) (state_of [])) = Inr s1"
    and c: "\<forall>e s2 pubkey. parse example_keys Unpack_Script (out_Script (TxOut three_tx ! 1)) = Inl e
        \<and> parse example_keys Unpack_Script2 (out_Script (TxOut three_tx ! 1)) = Inr s2
        \<and> checkTxout2 example_keys s2 = Inr pubkey \<longrightarrow>
      (\<exists>st' later more. Add example_keys three_tx (state_of []) = Inr (None, st')
         \<and> txouts example_keys three_tx (Suc 1) (drop (Suc 1) (TxOut three_tx))
              (s1\<lparr>coins := (coins s1)(Serialize example_keys pubkey \<mapsto>
                     coins_of s1 (Serialize example_keys pubkey) @
                     [\<lparr>Addr = Serialize example_keys pubkey, TxHash = TxHashOf example_keys three_tx,
                       TxIndex = of_nat 1,
                       Value = out_Value (TxOut three_tx ! unat (of_nat 1 :: 32 word)), Ttype = 1\<rparr>]),
                   logs := logs s1 @ [''pubkey scriptsig'']\<rparr>) = Inr st'
         \<and> coins_of st' (Serialize example_keys pubkey) =
              coins_of s1 (Serialize example_keys pubkey) @
              [\<lparr>Addr = Serialize example_keys pubkey, TxHash = TxHashOf example_keys three_tx,
                TxIndex = of_nat 1,
                Value = out_Value (TxOut three_tx ! unat (of_nat 1 :: 32 word)), Ttype = 1\<rparr>] @ later
         \<and> logs st' = logs s1 @ [''pubkey scriptsig''] @ more)"
    by blast
  have p: "parse example_keys Unpack_Script (out_Script (TxOut three_tx ! 1)) = Inl ''this tx is not supported''
        \<and> parse example_keys Unpack_Script2 (out_Script (TxOut three_tx ! 1)) =
            Inr \<lparr>Length2 = 0x21, Pubkey2 = own_key, CheckSig2 = 0xAC\<rparr>
        \<and> checkTxout2 example_keys \<lparr>Length2 = 0x21, Pubkey2 = own_key, CheckSig2 = 0xAC\<rparr> = Inr own_key"
    unfolding nth by (simp add: parse_p2pk_as_p2pkh parse_p2pk_example checkTxout2_example)
  from c p obtain st' where
    a: "Add example_keys three_tx (state_of []) = Inr (None, st')"
    and r: "txouts example_keys three_tx (Suc 1) (drop (Suc 1) (TxOut three_tx))
              (s1\<lparr>coins := (coins s1)(Serialize example_keys own_key \<mapsto>
                     coins_of s1 (Serialize example_keys own_key) @
                     [\<lparr>Addr = Serialize example_keys own_key, TxHash = TxHashOf example_keys three_tx,
                       TxIndex = of_nat 1,
                       Value = out_Value (TxOut three_tx ! unat (of_nat 1 :: 32 word)), Ttype = 1\<rparr>]),
                   logs := logs s1 @ [''pubkey scriptsig'']\<rparr>) = Inr st'"
    by blast
  have l0: "0 < length (TxOut three_tx)"
    by (simp add: three_tx_outs)
  from s1 have s1': "s1 = \<lparr>coins = [own_key \<mapsto>
          [\<lparr>Addr = own_key, TxHash = replicate 32 0xAB, TxIndex = 0, Value = 5000, Ttype = 0\<rparr>]],
        logs = [''pubkeyhash scriptsig'']\<rparr>"
    by (simp add: three_tx_outs txout_step_p2pkh_example [OF l0] coins_of_state_of)
       (simp add: three_tx_def p2pkh_out_def state_of_def coins_of_def)
  from r have "st' = \<lparr>coins = [own_key \<mapsto>
          [\<lparr>Addr = own_key, TxHash = replicate 32 0xAB, TxIndex = 0, Value = 5000, Ttype = 0\<rparr>,
           \<lparr>Addr = own_key, TxHash = replicate 32 0xAB, TxIndex = 1, Value = 7000, Ttype = 1\<rparr>]],
        logs = [''pubkeyhash scriptsig'', ''pubkey scriptsig'',
          ''this tx is not supported(unknown format) EOF this tx is not supported(unknown format) EOF'',
          ''This txout is not supproted hex'']\<rparr>"
    by (simp add: s1' three_tx_outs txout_step_junk_example Serialize_example TxHashOf_example
        coins_of_def p2pk_out_def)
  with a show ?thesis by simp
qed

section \<open>The invariant of the registry\<close>

subsection \<open>Removal keeps the pairs distinct\<close>

lemma set_swap_remove:
  assumes "k < length cs"
  shows "set (butlast (cs[k := last cs])) \<subseteq> set cs"
proof -
  have "set_mset (mset cs - {#cs ! k#}) \<subseteq> set_mset (mset cs)"
    by (auto dest: in_diffD)
  then show ?thesis
    using mset_swap_remove [OF assms] by (metis set_mset_mset)
qed

lemma distinct_mset_subseteq:
  assumes "mset ys \<subseteq># mset xs" "distinct xs"
  shows "distinct ys"
proof -
  have le: "count (mset ys) x \<le> 1" for x
  proof -
    have "count (mset ys) x \<le> count (mset xs) x"
      using assms(1) by (rule mset_subset_eq_count)
    also have "\<dots> \<le> 1"
      using assms(2) by (simp add: distinct_count_atmost_1)
    finally show ?thesis .
  qed
  have "count (mset ys) a = (if a \<in> set ys then 1 else 0)" for a
  proof (cases "a \<in> set ys")
    case True
    then have "count (mset ys) a \<noteq> 0" by (simp add: count_eq_zero_iff)
    with le [of a] have "count (mset ys) a = 1" by arith
    with True show ?thesis by simp
  next
    case False
    then show ?thesis by (simp add: count_eq_zero_iff)
  qed
  then show ?thesis by (simp only: distinct_count_atmost_1) simp
qed

lemma distinct_swap_remove:
  assumes "distinct (map f cs)" "k < length cs"
  shows "distinct (map f (butlast (cs[k := last cs])))"
proof -
  let ?new = "butlast (cs[k := last cs])"
  have "mset ?new \<subseteq># mset cs"
    using mset_swap_remove [OF assms(2)] by simp
  then have "image_mset f (mset ?new) \<subseteq># image_mset f (mset cs)"
    by (rule image_mset_subseteq_mono)
  then have "mset (map f ?new) \<subseteq># mset (map f cs)"
    by (simp only: mset_map)
  then show ?thesis using assms(1) by (rule distinct_mset_subseteq)
qed

lemma remove_cases:
  "(remove env pub h i st = (Some ''coin was not found'', st))
   \<or> (\<exists>k. k < length (coins_of st (Serialize env pub))
        \<and> remove env pub h i st =
           (None, st\<lparr>coins := (coins st)(Serialize env pub \<mapsto>
              butlast ((coins_of st (Serialize env pub))[k := last (coins_of st (Serialize env pub))]))\<rparr>))"
proof (cases "scan h i (coins_of st (Serialize env pub))")
  case None
  then show ?thesis by (simp add: remove_def Let_def)
next
  case (Some k)
  from scan_Some [OF Some] Some show ?thesis
    by (auto simp: remove_def Let_def)
qed

lemma remove_subset:
  "set (coins_of (snd (remove env pub h i st)) a) \<subseteq> set (coins_of st a)"
proof -
  let ?cs = "coins_of st (Serialize env pub)"
  from remove_cases [of env pub h i st]
  consider "remove env pub h i st = (Some ''coin was not found'', st)"
    | k where "k < length ?cs"
        "remove env pub h i st =
           (None, st\<lparr>coins := (coins st)(Serialize env pub \<mapsto> butlast (?cs[k := last ?cs]))\<rparr>)"
    by blast
  then show ?thesis
  proof cases
    case 1
    then show ?thesis by simp
  next
    case 2
    show ?thesis
    proof (cases "a = Serialize env pub")
      case True
      with 2 set_swap_remove [OF 2(1)] show ?thesis by (simp add: coins_of_upd)
    next
      case False
      with 2 show ?thesis by (simp add: coins_of_upd)
    qed
  qed
qed

lemma remove_addr_inv:
  assumes "addr_inv st a"
  shows "addr_inv (snd (remove env pub h i st)) a"
proof -
  let ?cs = "coins_of st (Serialize env pub)"
  from remove_cases [of env pub h i st]
  consider "remove env pub h i st = (Some ''coin was not found'', st)"
    | k where "k < length ?cs"
        "remove env pub h i st =
           (None, st\<lparr>coins := (coins st)(Serialize env pub \<mapsto> butlast (?cs[k := last ?cs]))\<rparr>)"
    by blast
  then show ?thesis
  proof cases
    case 1
    with assms show ?thesis by simp
  next
    case 2
    show ?thesis
    proof (cases "a = Serialize env pub")
      case True
      with assms have "distinct (map (\<lambda>c. (TxHash c, TxIndex c)) ?cs)"
        by (simp add: addr_inv_def)
      from distinct_swap_remove [OF this 2(1)] True 2(2) show ?thesis
        by (simp add: addr_inv_def coins_of_upd)
    next
      case False
      with 2 assms show ?thesis by (simp add: addr_inv_def coins_of_upd)
    qed
  qed
qed

lemma txin_step_subset:
  "set (coins_of (txin_step env i st) a) \<subseteq> set (coins_of st a)"
proof (cases "txin_check env i")
  case (Inl m)
  then show ?thesis by (simp add: txin_step_eq)
next
  case (Inr pub)
  obtain e t where r: "remove env pub (in_Hash i) (in_Index i) st = (e, t)"
    by (cases "remove env pub (in_Hash i) (in_Index i) st")
  with remove_subset [of env pub "in_Hash i" "in_Index i" st a]
  have "set (coins_of t a) \<subseteq> set (coins_of st a)" by simp
  with Inr r show ?thesis by (simp add: txin_step_eq split: option.split)
qed

lemma txin_step_addr_inv:
  assumes "addr_inv st a"
  shows "addr_inv (txin_step env i st) a"
proof (cases "txin_check env i")
  case (Inl m)
  with assms show ?thesis by (simp add: txin_step_eq addr_inv_def)
next
  case (Inr pub)
  obtain e t where r: "remove env pub (in_Hash i) (in_Index i) st = (e, t)"
    by (cases "remove env pub (in_Hash i) (in_Index i) st")
  with remove_addr_inv [OF assms, of env pub "in_Hash i" "in_Index i"]
  have "addr_inv t a" by simp
  with Inr r show ?thesis by (simp add: txin_step_eq addr_inv_def split: option.split)
qed

lemma txins_subset: "set (coins_of (txins env is st) a) \<subseteq> set (coins_of st a)"
proof (induction "is" arbitrary: st)
  case Nil
  then show ?case by simp
next
  case (Cons i "is")
  have "set (coins_of (txins env is (txin_step env i st)) a) \<subseteq> set (coins_of (txin_step env i st) a)"
    by (rule Cons.IH)
  also have "\<dots> \<subseteq> set (coins_of st a)"
    by (rule txin_step_subset)
  finally show ?case by simp
qed

lemma txins_addr_inv: "addr_inv st a \<Longrightarrow> addr_inv (txins env is st) a"
  by (induction "is" arbitrary: st) (simp_all add: txin_step_addr_inv)

subsection \<open>Adding keeps them distinct when the pair is new\<close>

lemma add_addr_inv:
  assumes "addr_inv st a"
    and "\<forall>c\<in>set (coins_of st (Serialize env pub)). \<not> is_coin (TxHashOf env tx) index c"
    and "add env pub tx index ttype st = Inr st1"
  shows "addr_inv st1 a"
  using assms(1,2) add_coins_of [OF assms(3), of a]
  by (auto simp: addr_inv_def is_coin_def)

lemma outs_inv_logged_Suc:
  assumes "outs_inv H k st"
  shows "outs_inv H (Suc k) (logged ms st)"
proof -
  have "addr_inv (logged ms st) a
      \<and> (\<forall>c\<in>set (coins_of (logged ms st) a). TxHash c = H \<longrightarrow> (\<exists>j<Suc k. TxIndex c = of_nat j))"
    for a
  proof (intro conjI ballI impI)
    from assms show "addr_inv (logged ms st) a"
      by (simp add: outs_inv_def addr_inv_def)
  next
    fix c assume "c \<in> set (coins_of (logged ms st) a)" "TxHash c = H"
    with assms obtain j where "j < k" "TxIndex c = of_nat j"
      by (auto simp: outs_inv_def)
    then show "\<exists>j<Suc k. TxIndex c = of_nat j"
      by (intro exI [of _ j]) simp
  qed
  then show ?thesis by (simp add: outs_inv_def)
qed

lemma txout_step_outs_inv:
  assumes inv: "outs_inv (TxHashOf env mtx) k st" and k: "k < 2 ^ 32"
    and s: "txout_step env mtx k out st = Inr st'"
  shows "outs_inv (TxHashOf env mtx) (Suc k) st'"
proof -
  let ?H = "TxHashOf env mtx"
  obtain ms r where c: "txout_check env mtx out = (ms, r)"
    by (cases "txout_check env mtx out")
  show ?thesis
  proof (cases r)
    case None
    with c s have "st' = logged ms st" by (simp add: txout_step_eq)
    with inv show ?thesis by (simp add: outs_inv_logged_Suc)
  next
    case (Some q)
    obtain pk ty where q: "q = (pk, ty)" by (cases q)
    let ?st = "logged ms st"
    from c Some q s have a: "add env pk mtx (of_nat k) ty ?st = Inr st'"
      by (simp add: txout_step_eq)
    have fresh: "\<not> is_coin ?H (of_nat k) c" if "c \<in> set (coins_of ?st b)" for c b
    proof
      assume "is_coin ?H (of_nat k) c"
      then have h: "TxHash c = ?H" "TxIndex c = of_nat k" by (simp_all add: is_coin_def)
      from inv that h(1) obtain j where j: "j < k" "TxIndex c = of_nat j"
        by (auto simp: outs_inv_def)
      with k have "j < 2 ^ 32" by simp
      from uint32_inj [OF this k] j h(2) show False by simp
    qed
    have "addr_inv st' b
        \<and> (\<forall>c\<in>set (coins_of st' b). TxHash c = ?H \<longrightarrow> (\<exists>j<Suc k. TxIndex c = of_nat j))" for b
    proof
      have "addr_inv ?st b" using inv by (simp add: outs_inv_def addr_inv_def)
      moreover have "\<forall>c\<in>set (coins_of ?st (Serialize env pk)). \<not> is_coin ?H (of_nat k) c"
        using fresh by blast
      ultimately show "addr_inv st' b" using a by (rule add_addr_inv)
    next
      show "\<forall>c\<in>set (coins_of st' b). TxHash c = ?H \<longrightarrow> (\<exists>j<Suc k. TxIndex c = of_nat j)"
      proof (intro ballI impI)
        fix c assume c: "c \<in> set (coins_of st' b)" "TxHash c = ?H"
        from c(1) add_coins_of [OF a, of b]
        consider "c \<in> set (coins_of st b)" | "TxIndex c = of_nat k"
          by (auto split: if_splits)
        then show "\<exists>j<Suc k. TxIndex c = of_nat j"
        proof cases
          case 1
          with inv c(2) obtain j where "j < k" "TxIndex c = of_nat j"
            by (auto simp: outs_inv_def)
          then show ?thesis by (intro exI [of _ j]) simp
        next
          case 2
          then show ?thesis by (intro exI [of _ k]) simp
        qed
      qed
    qed
    then show ?thesis by (simp add: outs_inv_def)
  qed
qed

lemma txouts_outs_inv:
  "outs_inv (TxHashOf env mtx) k st \<Longrightarrow> k + length outs \<le> 2 ^ 32 \<Longrightarrow>
     txouts env mtx k outs st = Inr st' \<Longrightarrow>
     outs_inv (TxHashOf env mtx) (k + length outs) st'"
proof (induction outs arbitrary: k st)
  case Nil
  then show ?case by simp
next
  case (Cons out outs)
  from Cons.prems(3) obtain s where s: "txout_step env mtx k out st = Inr s"
    and r: "txouts env mtx (Suc k) outs s = Inr st'"
    by (auto split: sum.splits)
  from Cons.prems(2) have k: "k < 2 ^ 32" by simp
  have "outs_inv (TxHashOf env mtx) (Suc k) s"
    by (rule txout_step_outs_inv [OF Cons.prems(1) k s])
  moreover from Cons.prems(2) have "Suc k + length outs \<le> 2 ^ 32" by simp
  ultimately have "outs_inv (TxHashOf env mtx) (Suc k + length outs) st'"
    using r by (rule Cons.IH)
  then show ?case by simp
qed

subsection \<open>What is preserved, and what is not\<close>

text \<open>
  Claim C1, as the code has it. \<open>remove\<close> preserves the invariant that no two coins of
  an address have the same pair (transaction hash, output index). \<open>add\<close> appends without
  looking at the list, so it preserves the invariant when no coin of the address has the
  pair of the coin added. \<open>Add\<close> preserves it when no coin in the registry has the hash of
  the transaction processed (and the transaction has at most \<open>2 ^ 32\<close> outputs, so that
  their indices differ). (The claim says that every operation preserves the invariant;
  the counterexample below processes one transaction twice, from a registry without coins,
  and the address then holds the same pair twice.)
\<close>

theorem registry_inv_preserved:
  "(registry_inv st \<longrightarrow> registry_inv (snd (remove env pub hash index st)))
   \<and> (registry_inv st
        \<and> (\<forall>c\<in>set (coins_of st (Serialize env pub)).
              \<not> (TxHash c = TxHashOf env tx \<and> TxIndex c = index))
        \<and> add env pub tx index ttype st = Inr st1
      \<longrightarrow> registry_inv st1)
   \<and> (registry_inv st
        \<and> (\<forall>a. \<forall>c\<in>set (coins_of st a). TxHash c \<noteq> TxHashOf env mtx)
        \<and> length (TxOut mtx) \<le> 2 ^ 32
      \<longrightarrow> (\<exists>st'. Add env mtx st = Inr (None, st') \<and> registry_inv st'))"
proof (intro conjI impI)
  assume "registry_inv st"
  then show "registry_inv (snd (remove env pub hash index st))"
    by (simp add: registry_inv_def remove_addr_inv)
next
  assume a: "registry_inv st
        \<and> (\<forall>c\<in>set (coins_of st (Serialize env pub)).
              \<not> (TxHash c = TxHashOf env tx \<and> TxIndex c = index))
        \<and> add env pub tx index ttype st = Inr st1"
  then have "\<forall>c\<in>set (coins_of st (Serialize env pub)). \<not> is_coin (TxHashOf env tx) index c"
    by (simp add: is_coin_def)
  with a show "registry_inv st1"
    by (auto simp: registry_inv_def intro: add_addr_inv)
next
  assume a: "registry_inv st
        \<and> (\<forall>a. \<forall>c\<in>set (coins_of st a). TxHash c \<noteq> TxHashOf env mtx)
        \<and> length (TxOut mtx) \<le> 2 ^ 32"
  let ?mid = "txins env (TxIn mtx) st"
  have "outs_inv (TxHashOf env mtx) 0 ?mid"
    unfolding outs_inv_def
  proof (intro allI conjI ballI impI)
    fix b
    from a show "addr_inv ?mid b"
      by (simp add: registry_inv_def txins_addr_inv)
  next
    fix b c assume "c \<in> set (coins_of ?mid b)" "TxHash c = TxHashOf env mtx"
    with txins_subset [of env "TxIn mtx" st b] a
    show "\<exists>j<0. TxIndex c = of_nat j" by auto
  qed
  moreover from a have "0 + length (TxOut mtx) \<le> 2 ^ 32" by simp
  moreover obtain st' where st': "txouts env mtx 0 (TxOut mtx) ?mid = Inr st'"
    using txouts_Inr [of 0 "TxOut mtx" mtx env ?mid] by auto
  ultimately have "outs_inv (TxHashOf env mtx) (0 + length (TxOut mtx)) st'"
    by (rule txouts_outs_inv)
  then have "registry_inv st'"
    by (simp add: outs_inv_def registry_inv_def)
  with st' show "\<exists>st'. Add env mtx st = Inr (None, st') \<and> registry_inv st'"
    by (simp add: Add_def)
qed

theorem duplicate_coin_counterexample:
  "registry_inv (state_of [])
   \<and> Add example_keys example_tx (state_of []) =
       Inr (None, \<lparr>coins = [own_key \<mapsto> [coin_of 0 5000]], logs = [''pubkeyhash scriptsig'']\<rparr>)
   \<and> Add example_keys example_tx
        \<lparr>coins = [own_key \<mapsto> [coin_of 0 5000]], logs = [''pubkeyhash scriptsig'']\<rparr> =
       Inr (None, \<lparr>coins = [own_key \<mapsto> [coin_of 0 5000, coin_of 0 5000]],
                   logs = [''pubkeyhash scriptsig'', ''pubkeyhash scriptsig'']\<rparr>)
   \<and> \<not> registry_inv \<lparr>coins = [own_key \<mapsto> [coin_of 0 5000, coin_of 0 5000]],
                   logs = [''pubkeyhash scriptsig'', ''pubkeyhash scriptsig'']\<rparr>"
proof (intro conjI)
  show "registry_inv (state_of [])"
    by (simp add: registry_inv_state_of)
  show "Add example_keys example_tx (state_of []) =
       Inr (None, \<lparr>coins = [own_key \<mapsto> [coin_of 0 5000]], logs = [''pubkeyhash scriptsig'']\<rparr>)"
    by (simp add: Add_example_tx coins_of_state_of) (simp add: state_of_def)
  show "Add example_keys example_tx
        \<lparr>coins = [own_key \<mapsto> [coin_of 0 5000]], logs = [''pubkeyhash scriptsig'']\<rparr> =
       Inr (None, \<lparr>coins = [own_key \<mapsto> [coin_of 0 5000, coin_of 0 5000]],
                   logs = [''pubkeyhash scriptsig'', ''pubkeyhash scriptsig'']\<rparr>)"
    by (simp add: Add_example_tx coins_of_def)
  show "\<not> registry_inv \<lparr>coins = [own_key \<mapsto> [coin_of 0 5000, coin_of 0 5000]],
                   logs = [''pubkeyhash scriptsig'', ''pubkeyhash scriptsig'']\<rparr>"
  proof
    assume "registry_inv \<lparr>coins = [own_key \<mapsto> [coin_of 0 5000, coin_of 0 5000]],
                   logs = [''pubkeyhash scriptsig'', ''pubkeyhash scriptsig'']\<rparr>"
    then have "addr_inv \<lparr>coins = [own_key \<mapsto> [coin_of 0 5000, coin_of 0 5000]],
                   logs = [''pubkeyhash scriptsig'', ''pubkeyhash scriptsig'']\<rparr> own_key"
      by (simp add: registry_inv_def)
    then show False by (simp add: addr_inv_def coins_of_def)
  qed
qed

theorem registry_inv_preserved_witness:
  "registry_inv (snd (remove example_keys own_key (replicate 32 0xAB) 0 (state_of [coin_of 0 5, coin_of 1 6])))
   \<and> (\<exists>st1. add example_keys own_key example_tx 0 0 (state_of [coin_of 1 6]) = Inr st1 \<and> registry_inv st1)
   \<and> (\<exists>st'. Add example_keys example_tx (state_of []) = Inr (None, st') \<and> registry_inv st')"
proof -
  have i2: "registry_inv (state_of [coin_of 0 5, coin_of 1 6])"
    by (rule registry_inv_state_of) (simp add: coin_of_def)
  have i1: "registry_inv (state_of [coin_of 1 6])"
    by (rule registry_inv_state_of) simp
  have i0: "registry_inv (state_of [])"
    by (rule registry_inv_state_of) simp
  have fresh1: "\<forall>c\<in>set (coins_of (state_of [coin_of 1 6]) (Serialize example_keys own_key)).
      \<not> (TxHash c = TxHashOf example_keys example_tx \<and> TxIndex c = 0)"
    by (simp add: Serialize_example coins_of_state_of coin_of_def)
  have "unat (0 :: 32 word) < length (TxOut example_tx)"
    by (simp add: example_tx_def)
  from add_Inr [OF this, of example_keys own_key 0 "state_of [coin_of 1 6]"]
  obtain st1 where a: "add example_keys own_key example_tx 0 0 (state_of [coin_of 1 6]) = Inr st1"
    by blast
  have fresh0: "\<forall>a. \<forall>c\<in>set (coins_of (state_of []) a). TxHash c \<noteq> TxHashOf example_keys example_tx"
    by (simp add: coins_of_def state_of_def)
  have len: "length (TxOut example_tx) \<le> 2 ^ 32"
    by (simp add: example_tx_def)
  note t1 = registry_inv_preserved [where st = "state_of [coin_of 0 5, coin_of 1 6]"
      and env = example_keys and pub = own_key and hash = "replicate 32 0xAB" and index = 0]
  note t2 = registry_inv_preserved [where st = "state_of [coin_of 1 6]" and env = example_keys
      and pub = own_key and tx = example_tx and index = 0 and ttype = 0 and ?st1.0 = st1]
  note t3 = registry_inv_preserved [where st = "state_of []" and env = example_keys
      and mtx = example_tx]
  from t1 i2 have "registry_inv (snd (remove example_keys own_key (replicate 32 0xAB) 0 (state_of [coin_of 0 5, coin_of 1 6])))"
    by blast
  moreover from t2 i1 fresh1 a have "registry_inv st1" by blast
  moreover from t3 i0 fresh0 len
  have "\<exists>st'. Add example_keys example_tx (state_of []) = Inr (None, st') \<and> registry_inv st'"
    by blast
  ultimately show ?thesis using a by blast
qed

end
